theory Spec2Isabelle
  imports Complex_Main "HOL-Library.Word"
begin

section \<open>JavaScript values\<close>

subsection \<open>Strings\<close>

text \<open>
  A JavaScript string is a sequence of UTF-16 code units; \<open>.length\<close> counts code units.
  Literals of the source are written \<open>str ''...''\<close>.
\<close>

type_synonym jschar = "16 word"
type_synonym jsstring = "jschar list"

definition str :: "string \<Rightarrow> jsstring" where
  "str s = map of_char s"

text \<open>
  \<open>isLineTerminator\<close> and \<open>isWhiteSpace\<close> are the ECMAScript classes: the regular
  expression class \<open>\s\<close> and \<open>String.prototype.trim\<close> both use white space together
  with the line terminators, and \<open>.\<close> matches everything but a line terminator.
\<close>

definition isLineTerminator :: "jschar \<Rightarrow> bool" where
  "isLineTerminator c = (c = 10 \<or> c = 13 \<or> c = 8232 \<or> c = 8233)"

definition isWhiteSpace :: "jschar \<Rightarrow> bool" where
  "isWhiteSpace c =
     (c = 9 \<or> c = 11 \<or> c = 12 \<or> c = 32 \<or> c = 160 \<or> c = 5760 \<or>
      (8192 \<le> c \<and> c \<le> 8202) \<or> c = 8239 \<or> c = 8287 \<or> c = 12288 \<or> c = 65279 \<or>
      isLineTerminator c)"

definition trimStart :: "jsstring \<Rightarrow> jsstring" where
  "trimStart s = dropWhile isWhiteSpace s"

definition trimEnd :: "jsstring \<Rightarrow> jsstring" where
  "trimEnd s = rev (dropWhile isWhiteSpace (rev s))"

definition trim :: "jsstring \<Rightarrow> jsstring" where
  "trim s = trimEnd (trimStart s)"

text \<open>\<open>haystack.startsWith(needle)\<close> and \<open>haystack.includes(needle)\<close>.\<close>

fun startsWith :: "jsstring \<Rightarrow> jsstring \<Rightarrow> bool" where
  "startsWith hay [] = True"
| "startsWith [] (n # ns) = False"
| "startsWith (h # hs) (n # ns) = (h = n \<and> startsWith hs ns)"

fun includesStr :: "jsstring \<Rightarrow> jsstring \<Rightarrow> bool" where
  "includesStr [] needle = (needle = [])"
| "includesStr (h # hs) needle = (startsWith (h # hs) needle \<or> includesStr hs needle)"

text \<open>Case mapping restricted to the ASCII letters.\<close>

definition asciiLower :: "jschar \<Rightarrow> jschar" where
  "asciiLower c = (if 65 \<le> c \<and> c \<le> 90 then c + 32 else c)"

definition asciiUpper :: "jschar \<Rightarrow> jschar" where
  "asciiUpper c = (if 97 \<le> c \<and> c \<le> 122 then c - 32 else c)"

text \<open>\<open>parts.join(sep)\<close>.\<close>

fun joinWith :: "jsstring \<Rightarrow> jsstring list \<Rightarrow> jsstring" where
  "joinWith sep [] = []"
| "joinWith sep [x] = x"
| "joinWith sep (x # y # ys) = x @ sep @ joinWith sep (y # ys)"

text \<open>\<open>text.split('\n')\<close>: always at least one part.\<close>

fun splitOn :: "jschar \<Rightarrow> jsstring \<Rightarrow> jsstring list" where
  "splitOn d [] = [[]]"
| "splitOn d (c # cs) =
     (if c = d then [] # splitOn d cs
      else (case splitOn d cs of [] \<Rightarrow> [[c]] | l # ls \<Rightarrow> (c # l) # ls))"

text \<open>Decimal rendering of a natural number, as a template literal renders an index.\<close>

definition digitChar :: "nat \<Rightarrow> jschar" where
  "digitChar d = of_nat (48 + d)"

fun natToStringFuel :: "nat \<Rightarrow> nat \<Rightarrow> jsstring" where
  "natToStringFuel 0 n = [digitChar (n mod 10)]"
| "natToStringFuel (Suc f) n =
     (if n < 10 then [digitChar n] else natToStringFuel f (n div 10) @ [digitChar (n mod 10)])"

definition natToString :: "nat \<Rightarrow> jsstring" where
  "natToString n = natToStringFuel n n"

subsection \<open>Numbers\<close>

text \<open>
  A JavaScript number is an IEEE double: a finite value (the real it denotes), \<open>NaN\<close> or
  an infinity. Comparisons are exact on the denoted reals and false on \<open>NaN\<close>. The rounded
  operations \<open>+\<close>, \<open>-\<close>, \<open>*\<close>, \<open>/\<close> belong to the host and are supplied through
  \<open>builtins\<close> below. The sign of zero is not modelled.
\<close>

datatype jsnum = Num real | NaN | PosInf | NegInf

fun num_lt :: "jsnum \<Rightarrow> jsnum \<Rightarrow> bool" where
  "num_lt (Num a) (Num b) = (a < b)"
| "num_lt (Num a) PosInf = True"
| "num_lt NegInf (Num b) = True"
| "num_lt NegInf PosInf = True"
| "num_lt _ _ = False"

fun num_le :: "jsnum \<Rightarrow> jsnum \<Rightarrow> bool" where
  "num_le (Num a) (Num b) = (a \<le> b)"
| "num_le (Num a) PosInf = True"
| "num_le NegInf (Num b) = True"
| "num_le NegInf PosInf = True"
| "num_le NegInf NegInf = True"
| "num_le PosInf PosInf = True"
| "num_le _ _ = False"

definition num_gt :: "jsnum \<Rightarrow> jsnum \<Rightarrow> bool" where
  "num_gt a b = num_lt b a"

definition num_ge :: "jsnum \<Rightarrow> jsnum \<Rightarrow> bool" where
  "num_ge a b = num_le b a"

definition isNaN :: "jsnum \<Rightarrow> bool" where
  "isNaN x = (x = NaN)"

fun isFinite :: "jsnum \<Rightarrow> bool" where
  "isFinite (Num a) = True"
| "isFinite _ = False"

text \<open>\<open>Math.min(a, b)\<close>, \<open>Math.max(a, b)\<close>, \<open>Math.abs\<close>, \<open>Math.round\<close>.\<close>

definition mathMin :: "jsnum \<Rightarrow> jsnum \<Rightarrow> jsnum" where
  "mathMin a b = (if a = NaN \<or> b = NaN then NaN else if num_le a b then a else b)"

definition mathMax :: "jsnum \<Rightarrow> jsnum \<Rightarrow> jsnum" where
  "mathMax a b = (if a = NaN \<or> b = NaN then NaN else if num_le a b then b else a)"

fun mathAbs :: "jsnum \<Rightarrow> jsnum" where
  "mathAbs (Num a) = Num \<bar>a\<bar>"
| "mathAbs NaN = NaN"
| "mathAbs PosInf = PosInf"
| "mathAbs NegInf = PosInf"

fun mathRound :: "jsnum \<Rightarrow> jsnum" where
  "mathRound (Num a) = Num (of_int \<lfloor>a + 1 / 2\<rfloor>)"
| "mathRound x = x"

text \<open>\<open>Math.min(...xs)\<close> and \<open>Math.max(...xs)\<close> over a spread list.\<close>

definition mathMinList :: "jsnum list \<Rightarrow> jsnum" where
  "mathMinList xs = foldl mathMin PosInf xs"

definition mathMaxList :: "jsnum list \<Rightarrow> jsnum" where
  "mathMaxList xs = foldl mathMax NegInf xs"

subsection \<open>Untyped values\<close>

text \<open>
  Values of type \<open>unknown\<close> (fields of a record input, table rows, evidence meta).
  Objects carry their own properties only; a key that occurs twice reads as its first entry.
\<close>

datatype jsval =
    JUndefined
  | JNull
  | JBool bool
  | JNumber jsnum
  | JString jsstring
  | JDate jsnum
  | JArray "jsval list"
  | JObject "(jsstring \<times> jsval) list"

fun isDigit :: "jschar \<Rightarrow> bool" where
  "isDigit c = (48 \<le> c \<and> c \<le> 57)"

definition digitsToNat :: "jsstring \<Rightarrow> nat" where
  "digitsToNat s = foldl (\<lambda>acc c. 10 * acc + (unat c - 48)) 0 s"

text \<open>An array index key is a canonical decimal numeral: digits only, no leading zero.\<close>

definition arrayIndex :: "jsstring \<Rightarrow> nat option" where
  "arrayIndex key =
     (if key = [] \<or> \<not> list_all isDigit key then None
      else if hd key = 48 \<and> length key > 1 then None
      else Some (digitsToNat key))"

text \<open>
  \<open>obj[key]\<close> for a value with \<open>typeof obj === 'object'\<close>: the own properties of
  a plain object, the elements and the length of an array. The members that objects, arrays
  and dates inherit from their prototypes (\<open>constructor\<close>, \<open>toString\<close>, \<open>getTime\<close>,
  ...) are functions, which \<open>jsval\<close> does not hold; a key that names one reads as
  \<open>undefined\<close> here, so the model covers paths that name data only.
\<close>

fun getProp :: "jsval \<Rightarrow> jsstring \<Rightarrow> jsval" where
  "getProp (JObject kvs) key = (case map_of kvs key of None \<Rightarrow> JUndefined | Some v \<Rightarrow> v)"
| "getProp (JArray xs) key =
     (if key = str ''length'' then JNumber (Num (of_nat (length xs)))
      else (case arrayIndex key of
              None \<Rightarrow> JUndefined
            | Some i \<Rightarrow> (if i < length xs then xs ! i else JUndefined)))"
| "getProp _ key = JUndefined"

fun isObjectType :: "jsval \<Rightarrow> bool" where
  "isObjectType (JObject kvs) = True"
| "isObjectType (JArray xs) = True"
| "isObjectType (JDate t) = True"
| "isObjectType JNull = True"
| "isObjectType _ = False"

text \<open>\<open>getValueAtPath(record, path)\<close>.\<close>

fun getValueAtPath :: "jsval \<Rightarrow> jsstring list \<Rightarrow> jsval" where
  "getValueAtPath cursor [] = cursor"
| "getValueAtPath cursor (key # rest) =
     (if cursor = JNull \<or> cursor = JUndefined then JUndefined
      else if \<not> isObjectType cursor then JUndefined
      else getValueAtPath (getProp cursor key) rest)"

subsection \<open>Host functions\<close>

text \<open>
  The JavaScript built-ins the engine calls and whose result is fixed by the host, not by
  the sources: rounded arithmetic, \<open>new RegExp(pattern, flags).test(text)\<close> (\<open>Inl\<close>
  carries the message of the \<open>SyntaxError\<close> the constructor throws on a bad pattern),
  Unicode case mapping, \<open>Number(v)\<close>, \<open>String(v)\<close> and \<open>Date.parse\<close>.
  Every definition and theorem below is stated for an arbitrary \<open>builtins\<close>. The language
  fixes the first of these for every host. It lets \<open>Date.parse\<close> read a date-time
  without a UTC offset as local time, and \<open>String(v)\<close> print a \<open>Date\<close> in local time:
  for these two a value of \<open>builtins\<close> is a host in one time zone, and two time zones
  are two values.
\<close>

record builtins =
  fadd :: "jsnum \<Rightarrow> jsnum \<Rightarrow> jsnum"
  fsub :: "jsnum \<Rightarrow> jsnum \<Rightarrow> jsnum"
  fmul :: "jsnum \<Rightarrow> jsnum \<Rightarrow> jsnum"
  fdiv :: "jsnum \<Rightarrow> jsnum \<Rightarrow> jsnum"
  regExpTest :: "jsstring \<Rightarrow> jsstring \<Rightarrow> jsstring \<Rightarrow> jsstring + bool"
  toLowerCase :: "jsstring \<Rightarrow> jsstring"
  toUpperCase :: "jsstring \<Rightarrow> jsstring"
  toNumber :: "jsval \<Rightarrow> jsnum"
  toStr :: "jsval \<Rightarrow> jsstring"
  numToStr :: "jsnum \<Rightarrow> jsstring"
  dateParse :: "jsstring \<Rightarrow> jsnum"

section \<open>Rule evaluation engine\<close>

subsection \<open>Data model\<close>

datatype rule_type =
    TEXT_REGEX
  | TEXT_KEYWORD_BLACKLIST
  | TEXT_REQUIRED_PHRASE
  | NUMERIC_RANGE
  | REQUIRED_FIELD
  | EXCEL_ALL_CAPS
  | EXCEL_REQUIRED_COLUMNS
  | AUDIO_DURATION_LIMIT
  | SLA_TIME_DIFFERENCE
  | TONE_CLASSIFICATION
  | IMPLIED_ABUSE_DETECTION

datatype severity = BLOCKER | MAJOR | MINOR | INFO

datatype rule_outcome = PASS | FAIL | SKIP | ERROR

text \<open>
  The \<open>params\<close> object of each variant of \<open>QcRuleDefinition\<close>, fields in the order of the
  schema. The union is discriminated by \<open>type\<close>, so the constructor fixes the rule type.
\<close>

datatype rule_params =
    TextRegexParams "jsstring list option" jsstring "jsstring option" bool
      \<comment> \<open>fieldPath, pattern, flags, mustMatch\<close>
  | TextKeywordBlacklistParams "jsstring list option" "jsstring list" bool
      \<comment> \<open>fieldPath, keywords, caseSensitive\<close>
  | TextRequiredPhraseParams "jsstring list option" jsstring bool
      \<comment> \<open>fieldPath, phrase, caseSensitive\<close>
  | NumericRangeParams "jsstring list" "jsnum option" "jsnum option" bool bool
      \<comment> \<open>fieldPath, min, max, inclusiveMin, inclusiveMax\<close>
  | RequiredFieldParams "jsstring list" bool
      \<comment> \<open>fieldPath, allowEmptyString\<close>
  | ExcelAllCapsParams jsstring jsnum
      \<comment> \<open>column, minCapsRatio\<close>
  | ExcelRequiredColumnsParams "jsstring list" bool
      \<comment> \<open>requiredColumns, caseSensitive\<close>
  | AudioDurationLimitParams jsnum
      \<comment> \<open>maxDurationMs\<close>
  | SlaTimeDifferenceParams "jsstring list" "jsstring list" jsnum
      \<comment> \<open>startFieldPath, endFieldPath, maxDifferenceMs\<close>
  | ToneClassificationParams jsnum "jsstring list"
      \<comment> \<open>threshold, failLabels\<close>
  | ImpliedAbuseDetectionParams jsnum
      \<comment> \<open>threshold\<close>

fun typeOfParams :: "rule_params \<Rightarrow> rule_type" where
  "typeOfParams (TextRegexParams fp pat fl mm) = TEXT_REGEX"
| "typeOfParams (TextKeywordBlacklistParams fp kws cs) = TEXT_KEYWORD_BLACKLIST"
| "typeOfParams (TextRequiredPhraseParams fp ph cs) = TEXT_REQUIRED_PHRASE"
| "typeOfParams (NumericRangeParams fp mn mx imn imx) = NUMERIC_RANGE"
| "typeOfParams (RequiredFieldParams fp aes) = REQUIRED_FIELD"
| "typeOfParams (ExcelAllCapsParams col r) = EXCEL_ALL_CAPS"
| "typeOfParams (ExcelRequiredColumnsParams cols cs) = EXCEL_REQUIRED_COLUMNS"
| "typeOfParams (AudioDurationLimitParams mx) = AUDIO_DURATION_LIMIT"
| "typeOfParams (SlaTimeDifferenceParams sp ep mx) = SLA_TIME_DIFFERENCE"
| "typeOfParams (ToneClassificationParams th fls) = TONE_CLASSIFICATION"
| "typeOfParams (ImpliedAbuseDetectionParams th) = IMPLIED_ABUSE_DETECTION"

record rule =
  ruleId :: jsstring
  version :: nat
  enabled :: bool
  severity :: severity
  weight :: jsnum
  name :: jsstring
  params :: rule_params

definition ruleType :: "rule \<Rightarrow> rule_type" where
  "ruleType r = typeOfParams (params r)"

datatype input_kind = KText | KRecord | KTable | KAudio

datatype normalized_input =
    TextInput jsstring
  | RecordInput "(jsstring \<times> jsval) list"
  | TableInput "jsstring list" "jsval list"
  | AudioInput jsnum

fun kind :: "normalized_input \<Rightarrow> input_kind" where
  "kind (TextInput t) = KText"
| "kind (RecordInput r) = KRecord"
| "kind (TableInput cols rows) = KTable"
| "kind (AudioInput d) = KAudio"

record evidence =
  ev_type :: jsstring
  ev_message :: jsstring
  ev_path :: "jsstring list option"
  ev_meta :: "(jsstring \<times> jsval) list option"

record rule_error =
  err_code :: jsstring
  err_message :: jsstring

record rule_result =
  rr_ruleId :: jsstring
  rr_version :: nat
  rr_type :: rule_type
  rr_severity :: severity
  rr_weight :: jsnum
  rr_outcome :: rule_outcome
  rr_score :: jsnum
  rr_evidence :: "evidence list"
  rr_error :: "rule_error option"

record ai_signal =
  sig_confidence :: jsnum
  sig_label :: "jsstring option"
  sig_evidence :: "evidence list option"

record ai_signals =
  tone :: "ai_signal option"
  impliedAbuse :: "ai_signal option"

record execution_context =
  ctx_input :: normalized_input
  ctx_aiSignals :: "ai_signals option"
  ctx_executedAtIso :: jsstring

record execution_options =
  passScoreThreshold :: "jsnum option"
  blockerFailureForcesFail :: "bool option"

record run_request =
  req_input :: normalized_input
  req_rules :: "rule list"
  req_executedAtIso :: jsstring
  req_aiSignals :: "ai_signals option"
  req_options :: "execution_options option"

datatype overall_outcome = OverallPASS | OverallFAIL

record run_summary =
  engineVersion :: jsstring
  executedAt :: jsstring
  overallOutcome :: overall_outcome
  overallScore :: jsnum
  failedRuleIds :: "jsstring list"

record run_result =
  summary :: run_summary
  ruleResults :: "rule_result list"

text \<open>What a \<open>throw\<close> carries: the error class and its message.\<close>

datatype exn =
    QcExecutionError jsstring
  | QcRuleValidationError jsstring
  | SyntaxError jsstring
  | TypeError jsstring
  | Error jsstring

fun exnMessage :: "exn \<Rightarrow> jsstring" where
  "exnMessage (QcExecutionError m) = m"
| "exnMessage (QcRuleValidationError m) = m"
| "exnMessage (SyntaxError m) = m"
| "exnMessage (TypeError m) = m"
| "exnMessage (Error m) = m"

definition QC_ENGINE_VERSION :: jsstring where
  "QC_ENGINE_VERSION = str ''0.1.0''"

fun ruleTypeName :: "rule_type \<Rightarrow> jsstring" where
  "ruleTypeName TEXT_REGEX = str ''TEXT_REGEX''"
| "ruleTypeName TEXT_KEYWORD_BLACKLIST = str ''TEXT_KEYWORD_BLACKLIST''"
| "ruleTypeName TEXT_REQUIRED_PHRASE = str ''TEXT_REQUIRED_PHRASE''"
| "ruleTypeName NUMERIC_RANGE = str ''NUMERIC_RANGE''"
| "ruleTypeName REQUIRED_FIELD = str ''REQUIRED_FIELD''"
| "ruleTypeName EXCEL_ALL_CAPS = str ''EXCEL_ALL_CAPS''"
| "ruleTypeName EXCEL_REQUIRED_COLUMNS = str ''EXCEL_REQUIRED_COLUMNS''"
| "ruleTypeName AUDIO_DURATION_LIMIT = str ''AUDIO_DURATION_LIMIT''"
| "ruleTypeName SLA_TIME_DIFFERENCE = str ''SLA_TIME_DIFFERENCE''"
| "ruleTypeName TONE_CLASSIFICATION = str ''TONE_CLASSIFICATION''"
| "ruleTypeName IMPLIED_ABUSE_DETECTION = str ''IMPLIED_ABUSE_DETECTION''"

fun kindName :: "input_kind \<Rightarrow> jsstring" where
  "kindName KText = str ''text''"
| "kindName KRecord = str ''record''"
| "kindName KTable = str ''table''"
| "kindName KAudio = str ''audio''"

subsection \<open>Result constructors\<close>

definition normalizeCase :: "builtins \<Rightarrow> jsstring \<Rightarrow> bool \<Rightarrow> jsstring" where
  "normalizeCase B text caseSensitive = (if caseSensitive then text else toLowerCase B text)"

text \<open>
  \<open>resultBase(rule)\<close> copies the five identifying fields of the rule; the four constructors
  below spread it and add outcome, score, evidence and error.
\<close>

definition resultBase ::
  "rule \<Rightarrow> rule_outcome \<Rightarrow> jsnum \<Rightarrow> evidence list \<Rightarrow> rule_error option \<Rightarrow> rule_result" where
  "resultBase rule outcome score ev err =
     \<lparr> rr_ruleId = ruleId rule, rr_version = version rule, rr_type = ruleType rule,
       rr_severity = severity rule, rr_weight = weight rule,
       rr_outcome = outcome, rr_score = score, rr_evidence = ev, rr_error = err \<rparr>"

definition pass :: "rule \<Rightarrow> evidence list \<Rightarrow> rule_result" where
  "pass rule ev = resultBase rule PASS (Num 1) ev None"

definition fail :: "rule \<Rightarrow> evidence list \<Rightarrow> rule_result" where
  "fail rule ev = resultBase rule FAIL (Num 0) ev None"

definition mkEvidence ::
  "jsstring \<Rightarrow> jsstring \<Rightarrow> jsstring list option \<Rightarrow> (jsstring \<times> jsval) list option \<Rightarrow> evidence" where
  "mkEvidence ty msg p m = \<lparr> ev_type = ty, ev_message = msg, ev_path = p, ev_meta = m \<rparr>"

definition skip :: "rule \<Rightarrow> jsstring \<Rightarrow> rule_result" where
  "skip rule reason =
     resultBase rule SKIP (Num 1) [mkEvidence (str ''SKIP_REASON'') reason None None] None"

definition errorResult :: "rule \<Rightarrow> jsstring \<Rightarrow> evidence list \<Rightarrow> rule_result" where
  "errorResult rule msg ev =
     resultBase rule ERROR (Num 0) ev
       (Some \<lparr> err_code = str ''RULE_EVALUATION_ERROR'', err_message = msg \<rparr>)"

definition assertKind :: "normalized_input \<Rightarrow> input_kind \<Rightarrow> rule \<Rightarrow> exn + unit" where
  "assertKind input expectedKind rule =
     (if kind input \<noteq> expectedKind then
        Inl (QcExecutionError
              (str ''Rule '' @ ruleId rule @ str '' ('' @ ruleTypeName (ruleType rule) @
               str '') expects input kind '' @ [39] @ kindName expectedKind @ [39] @
               str '', got '' @ [39] @ kindName (kind input) @ [39] @ str ''.''))
      else Inr ())"

text \<open>The fields an evaluator reads once \<open>assertKind\<close> has narrowed the input.\<close>

fun recordOf :: "normalized_input \<Rightarrow> jsval" where
  "recordOf (RecordInput r) = JObject r"
| "recordOf _ = JUndefined"

fun columnsOf :: "normalized_input \<Rightarrow> jsstring list" where
  "columnsOf (TableInput cols rows) = cols"
| "columnsOf _ = []"

fun rowsOf :: "normalized_input \<Rightarrow> jsval list" where
  "rowsOf (TableInput cols rows) = rows"
| "rowsOf _ = []"

fun durationMsOf :: "normalized_input \<Rightarrow> jsnum" where
  "durationMsOf (AudioInput d) = d"
| "durationMsOf _ = NaN"

fun asTextFromInput ::
  "builtins \<Rightarrow> normalized_input \<Rightarrow> jsstring list option \<Rightarrow> jsstring option" where
  "asTextFromInput B (TextInput t) fp = Some t"
| "asTextFromInput B (RecordInput r) fp =
     (case fp of
        None \<Rightarrow> None
      | Some p \<Rightarrow>
          (if p = [] then None
           else (case getValueAtPath (JObject r) p of
                   JString s \<Rightarrow> Some s
                 | JUndefined \<Rightarrow> None
                 | JNull \<Rightarrow> None
                 | v \<Rightarrow> Some (toStr B v))))"
| "asTextFromInput B (TableInput cols rows) fp = None"
| "asTextFromInput B (AudioInput d) fp = None"

definition optNum :: "jsnum option \<Rightarrow> jsval" where
  "optNum x = (case x of None \<Rightarrow> JUndefined | Some n \<Rightarrow> JNumber n)"

definition optStr :: "jsstring option \<Rightarrow> jsval" where
  "optStr x = (case x of None \<Rightarrow> JUndefined | Some s \<Rightarrow> JString s)"

subsection \<open>Evaluators\<close>

definition evalTextRegex ::
  "builtins \<Rightarrow> rule \<Rightarrow> jsstring list option \<Rightarrow> jsstring \<Rightarrow> jsstring option \<Rightarrow> bool \<Rightarrow>
   normalized_input \<Rightarrow> exn + rule_result" where
  "evalTextRegex B rule fp pat fl mustMatch input =
     (case asTextFromInput B input fp of
        None \<Rightarrow> Inr (skip rule (str ''No text available for evaluation''))
      | Some text \<Rightarrow>
          (let flags = (case fl of None \<Rightarrow> [] | Some f \<Rightarrow> f) in
           case regExpTest B pat flags text of
             Inl msg \<Rightarrow> Inl (SyntaxError msg)
           | Inr matched \<Rightarrow>
               (let ev = [mkEvidence (str ''TEXT_REGEX'')
                            (if matched then str ''Regex matched'' else str ''Regex did not match'')
                            None
                            (Some [(str ''pattern'', JString pat), (str ''flags'', JString flags)])];
                    shouldPass = (if mustMatch then matched else \<not> matched)
                in Inr (if shouldPass then pass rule ev else fail rule ev))))"

definition evalTextKeywordBlacklist ::
  "builtins \<Rightarrow> rule \<Rightarrow> jsstring list option \<Rightarrow> jsstring list \<Rightarrow> bool \<Rightarrow>
   normalized_input \<Rightarrow> exn + rule_result" where
  "evalTextKeywordBlacklist B rule fp kws caseSensitive input =
     (case asTextFromInput B input fp of
        None \<Rightarrow> Inr (skip rule (str ''No text available for evaluation''))
      | Some text \<Rightarrow>
          (let haystack = normalizeCase B text caseSensitive;
               found = filter (\<lambda>keyword.
                         (let needle = normalizeCase B keyword caseSensitive
                          in length needle > 0 \<and> includesStr haystack needle)) kws
           in if length found = 0 then
                Inr (pass rule [mkEvidence (str ''TEXT_KEYWORD_BLACKLIST'')
                                  (str ''No blacklisted keywords found'') None None])
              else
                Inr (fail rule [mkEvidence (str ''TEXT_KEYWORD_BLACKLIST'')
                                  (str ''Blacklisted keywords detected'') None
                                  (Some [(str ''found'', JArray (map JString found))])])))"

definition evalTextRequiredPhrase ::
  "builtins \<Rightarrow> rule \<Rightarrow> jsstring list option \<Rightarrow> jsstring \<Rightarrow> bool \<Rightarrow>
   normalized_input \<Rightarrow> exn + rule_result" where
  "evalTextRequiredPhrase B rule fp phrase caseSensitive input =
     (case asTextFromInput B input fp of
        None \<Rightarrow> Inr (skip rule (str ''No text available for evaluation''))
      | Some text \<Rightarrow>
          (let haystack = normalizeCase B text caseSensitive;
               needle = normalizeCase B phrase caseSensitive;
               ok = (length needle > 0 \<and> includesStr haystack needle)
           in if ok then
                Inr (pass rule [mkEvidence (str ''TEXT_REQUIRED_PHRASE'')
                                  (str ''Required phrase present'') None None])
              else
                Inr (fail rule [mkEvidence (str ''TEXT_REQUIRED_PHRASE'')
                                  (str ''Required phrase missing'') None
                                  (Some [(str ''phrase'', JString phrase)])])))"

definition evalNumericRange ::
  "builtins \<Rightarrow> rule \<Rightarrow> jsstring list \<Rightarrow> jsnum option \<Rightarrow> jsnum option \<Rightarrow> bool \<Rightarrow> bool \<Rightarrow>
   normalized_input \<Rightarrow> exn + rule_result" where
  "evalNumericRange B rule fp mn mx inclMin inclMax input =
     (case assertKind input KRecord rule of
        Inl e \<Rightarrow> Inl e
      | Inr u \<Rightarrow>
          (let v = getValueAtPath (recordOf input) fp in
           if v = JUndefined \<or> v = JNull then
             Inr (fail rule [mkEvidence (str ''NUMERIC_RANGE'') (str ''Numeric value missing'')
                               (Some fp) None])
           else
             (let numeric = (case v of JNumber n \<Rightarrow> n | _ \<Rightarrow> toNumber B v) in
              if isNaN numeric then
                Inr (fail rule [mkEvidence (str ''NUMERIC_RANGE'') (str ''Value is not numeric'')
                                  (Some fp) (Some [(str ''value'', v)])])
              else
                (let minOk = (case mn of None \<Rightarrow> True
                              | Some m \<Rightarrow> (if inclMin then num_ge numeric m else num_gt numeric m));
                     maxOk = (case mx of None \<Rightarrow> True
                              | Some m \<Rightarrow> (if inclMax then num_le numeric m else num_lt numeric m));
                     ok = (minOk \<and> maxOk);
                     m = Some [(str ''numeric'', JNumber numeric), (str ''min'', optNum mn),
                               (str ''max'', optNum mx)]
                 in if ok then
                      Inr (pass rule [mkEvidence (str ''NUMERIC_RANGE'') (str ''Value within range'')
                                        (Some fp) m])
                    else
                      Inr (fail rule [mkEvidence (str ''NUMERIC_RANGE'') (str ''Value out of range'')
                                        (Some fp) m])))))"

definition evalRequiredField ::
  "rule \<Rightarrow> jsstring list \<Rightarrow> bool \<Rightarrow> normalized_input \<Rightarrow> exn + rule_result" where
  "evalRequiredField rule fp allowEmptyString input =
     (case assertKind input KRecord rule of
        Inl e \<Rightarrow> Inl e
      | Inr u \<Rightarrow>
          (let v = getValueAtPath (recordOf input) fp;
               exists = \<not> (v = JUndefined \<or> v = JNull)
           in if \<not> exists then
                Inr (fail rule [mkEvidence (str ''REQUIRED_FIELD'') (str ''Field missing'')
                                  (Some fp) None])
              else if v = JString [] \<and> \<not> allowEmptyString then
                Inr (fail rule [mkEvidence (str ''REQUIRED_FIELD'')
                                  (str ''Field empty string not allowed'') (Some fp) None])
              else
                Inr (pass rule [mkEvidence (str ''REQUIRED_FIELD'') (str ''Field present'')
                                  (Some fp) None])))"

definition evalExcelRequiredColumns ::
  "builtins \<Rightarrow> rule \<Rightarrow> jsstring list \<Rightarrow> bool \<Rightarrow> normalized_input \<Rightarrow> exn + rule_result" where
  "evalExcelRequiredColumns B rule requiredColumns caseSensitive input =
     (case assertKind input KTable rule of
        Inl e \<Rightarrow> Inl e
      | Inr u \<Rightarrow>
          (let columns = (if caseSensitive then columnsOf input
                          else map (toLowerCase B) (columnsOf input));
               required = (if caseSensitive then requiredColumns
                           else map (toLowerCase B) requiredColumns);
               missing = map fst (filter (\<lambda>(orig, req). \<not> List.member columns req)
                                    (zip requiredColumns required))
           in if length missing = 0 then
                Inr (pass rule [mkEvidence (str ''EXCEL_REQUIRED_COLUMNS'')
                                  (str ''All required columns present'') None None])
              else
                Inr (fail rule [mkEvidence (str ''EXCEL_REQUIRED_COLUMNS'')
                                  (str ''Missing required columns'') None
                                  (Some [(str ''missing'', JArray (map JString missing))])])))"

text \<open>\<open>xs.indexOf(x)\<close>: the first position of \<open>x\<close>, \<open>None\<close> for \<open>-1\<close>.\<close>

fun indexOf :: "'a list \<Rightarrow> 'a \<Rightarrow> nat option" where
  "indexOf [] x = None"
| "indexOf (y # ys) x =
     (if y = x then Some 0 else (case indexOf ys x of None \<Rightarrow> None | Some i \<Rightarrow> Some (Suc i)))"

text \<open>The cell of one row in the loop of \<open>evalExcelAllCaps\<close>.\<close>

fun cellOf :: "jsval \<Rightarrow> nat \<Rightarrow> jsstring \<Rightarrow> jsval" where
  "cellOf (JArray xs) colIndex col = (if colIndex < length xs then xs ! colIndex else JUndefined)"
| "cellOf (JObject kvs) colIndex col = getProp (JObject kvs) col"
| "cellOf (JDate t) colIndex col = getProp (JDate t) col"
| "cellOf _ colIndex col = JUndefined"

fun stringCell :: "jsval \<Rightarrow> jsstring option" where
  "stringCell (JString s) = Some s"
| "stringCell _ = None"

definition evalExcelAllCaps ::
  "builtins \<Rightarrow> rule \<Rightarrow> jsstring \<Rightarrow> jsnum \<Rightarrow> normalized_input \<Rightarrow> exn + rule_result" where
  "evalExcelAllCaps B rule col minCapsRatio input =
     (case assertKind input KTable rule of
        Inl e \<Rightarrow> Inl e
      | Inr u \<Rightarrow>
          (case indexOf (columnsOf input) col of
             None \<Rightarrow>
               Inr (fail rule [mkEvidence (str ''EXCEL_ALL_CAPS'') (str ''Column not found'') None
                                 (Some [(str ''column'', JString col)])])
           | Some colIndex \<Rightarrow>
               (let cells = List.map_filter (\<lambda>row. stringCell (cellOf row colIndex col))
                              (rowsOf input);
                    counted = filter (\<lambda>t. length t \<noteq> 0) (map trim cells);
                    total = length counted;
                    caps = length (filter (\<lambda>t. t = toUpperCase B t) counted)
                in if total = 0 then Inr (skip rule (str ''No string cells to evaluate''))
                   else
                     (let ratio = fdiv B (Num (of_nat caps)) (Num (of_nat total));
                          ok = num_ge ratio minCapsRatio;
                          ev = [mkEvidence (str ''EXCEL_ALL_CAPS'')
                                  (if ok then str ''All-caps ratio meets threshold''
                                   else str ''All-caps ratio below threshold'')
                                  None
                                  (Some [(str ''column'', JString col), (str ''ratio'', JNumber ratio),
                                         (str ''total'', JNumber (Num (of_nat total))),
                                         (str ''caps'', JNumber (Num (of_nat caps))),
                                         (str ''minCapsRatio'', JNumber minCapsRatio)])]
                      in Inr (if ok then pass rule ev else fail rule ev)))))"

definition evalAudioDurationLimit ::
  "rule \<Rightarrow> jsnum \<Rightarrow> normalized_input \<Rightarrow> exn + rule_result" where
  "evalAudioDurationLimit rule maxDurationMs input =
     (case assertKind input KAudio rule of
        Inl e \<Rightarrow> Inl e
      | Inr u \<Rightarrow>
          (let ok = num_le (durationMsOf input) maxDurationMs in
           if ok then
             Inr (pass rule [mkEvidence (str ''AUDIO_DURATION_LIMIT'')
                               (str ''Audio duration within limit'') None
                               (Some [(str ''durationMs'', JNumber (durationMsOf input))])])
           else
             Inr (fail rule [mkEvidence (str ''AUDIO_DURATION_LIMIT'')
                               (str ''Audio duration exceeds limit'') None
                               (Some [(str ''durationMs'', JNumber (durationMsOf input)),
                                      (str ''maxDurationMs'', JNumber maxDurationMs)])])))"

fun parseDateOrMillis :: "builtins \<Rightarrow> jsval \<Rightarrow> jsnum option" where
  "parseDateOrMillis B JUndefined = None"
| "parseDateOrMillis B JNull = None"
| "parseDateOrMillis B (JNumber n) = (if isFinite n then Some n else None)"
| "parseDateOrMillis B (JDate t) = Some t"
| "parseDateOrMillis B (JString s) =
     (let ms = dateParse B s in if \<not> isNaN ms then Some ms else None)"
| "parseDateOrMillis B _ = None"

definition evalSlaTimeDifference ::
  "builtins \<Rightarrow> rule \<Rightarrow> jsstring list \<Rightarrow> jsstring list \<Rightarrow> jsnum \<Rightarrow> normalized_input \<Rightarrow>
   exn + rule_result" where
  "evalSlaTimeDifference B rule startPath endPath maxDifferenceMs input =
     (case assertKind input KRecord rule of
        Inl e \<Rightarrow> Inl e
      | Inr u \<Rightarrow>
          (let startValue = getValueAtPath (recordOf input) startPath;
               endValue = getValueAtPath (recordOf input) endPath
           in case (parseDateOrMillis B startValue, parseDateOrMillis B endValue) of
                (Some startMs, Some endMs) \<Rightarrow>
                  (let diff = mathAbs (fsub B endMs startMs);
                       ok = num_le diff maxDifferenceMs
                   in if ok then
                        Inr (pass rule [mkEvidence (str ''SLA_TIME_DIFFERENCE'')
                                          (str ''SLA time difference within limit'') None
                                          (Some [(str ''diffMs'', JNumber diff)])])
                      else
                        Inr (fail rule [mkEvidence (str ''SLA_TIME_DIFFERENCE'')
                                          (str ''SLA time difference exceeds limit'') None
                                          (Some [(str ''diffMs'', JNumber diff),
                                                 (str ''maxDifferenceMs'', JNumber maxDifferenceMs)])]))
              | _ \<Rightarrow>
                  Inr (fail rule [mkEvidence (str ''SLA_TIME_DIFFERENCE'')
                                    (str ''Start or end timestamp missing/unparseable'') None
                                    (Some [(str ''startValue'', startValue),
                                           (str ''endValue'', endValue)])])))"

definition evalToneClassification ::
  "rule \<Rightarrow> jsnum \<Rightarrow> jsstring list \<Rightarrow> ai_signals option \<Rightarrow> exn + rule_result" where
  "evalToneClassification rule threshold failLabels aiSignals =
     (case (case aiSignals of None \<Rightarrow> None | Some a \<Rightarrow> tone a) of
        None \<Rightarrow> Inr (skip rule (str ''No AI tone signal available''))
      | Some signal \<Rightarrow>
          (let meetsConfidence = num_ge (sig_confidence signal) threshold;
               labelIsFail = (case sig_label signal of
                                None \<Rightarrow> False
                              | Some l \<Rightarrow> (if l \<noteq> [] then List.member failLabels l else False));
               ok = (\<not> (meetsConfidence \<and> labelIsFail));
               ev = mkEvidence (str ''TONE_CLASSIFICATION'')
                      (if ok then str ''Tone did not trigger failure thresholds''
                       else str ''Tone triggered failure thresholds'')
                      None
                      (Some [(str ''label'', optStr (sig_label signal)),
                             (str ''confidence'', JNumber (sig_confidence signal)),
                             (str ''threshold'', JNumber threshold),
                             (str ''failLabels'', JArray (map JString failLabels))])
                    # (case sig_evidence signal of None \<Rightarrow> [] | Some es \<Rightarrow> es)
           in Inr (if ok then pass rule ev else fail rule ev)))"

definition evalImpliedAbuseDetection ::
  "rule \<Rightarrow> jsnum \<Rightarrow> ai_signals option \<Rightarrow> exn + rule_result" where
  "evalImpliedAbuseDetection rule threshold aiSignals =
     (case (case aiSignals of None \<Rightarrow> None | Some a \<Rightarrow> impliedAbuse a) of
        None \<Rightarrow> Inr (skip rule (str ''No AI implied-abuse signal available''))
      | Some signal \<Rightarrow>
          (let ok = num_lt (sig_confidence signal) threshold;
               ev = mkEvidence (str ''IMPLIED_ABUSE_DETECTION'')
                      (if ok then str ''Implied abuse confidence below threshold''
                       else str ''Implied abuse confidence above threshold'')
                      None
                      (Some [(str ''confidence'', JNumber (sig_confidence signal)),
                             (str ''threshold'', JNumber threshold)])
                    # (case sig_evidence signal of None \<Rightarrow> [] | Some es \<Rightarrow> es)
           in Inr (if ok then pass rule ev else fail rule ev)))"

subsection \<open>evaluateRule and runQc\<close>

text \<open>
  The \<open>switch\<close> on \<open>rule.type\<close> inside the \<open>try\<close>. Its \<open>default\<close> branch needs a rule
  type outside the closed union and has no counterpart here.
\<close>

fun dispatchRule :: "builtins \<Rightarrow> execution_context \<Rightarrow> rule \<Rightarrow> rule_params \<Rightarrow> exn + rule_result" where
  "dispatchRule B ctx rule (TextRegexParams fp pat fl mm) =
     evalTextRegex B rule fp pat fl mm (ctx_input ctx)"
| "dispatchRule B ctx rule (TextKeywordBlacklistParams fp kws cs) =
     evalTextKeywordBlacklist B rule fp kws cs (ctx_input ctx)"
| "dispatchRule B ctx rule (TextRequiredPhraseParams fp ph cs) =
     evalTextRequiredPhrase B rule fp ph cs (ctx_input ctx)"
| "dispatchRule B ctx rule (NumericRangeParams fp mn mx imn imx) =
     evalNumericRange B rule fp mn mx imn imx (ctx_input ctx)"
| "dispatchRule B ctx rule (RequiredFieldParams fp aes) =
     evalRequiredField rule fp aes (ctx_input ctx)"
| "dispatchRule B ctx rule (ExcelRequiredColumnsParams cols cs) =
     evalExcelRequiredColumns B rule cols cs (ctx_input ctx)"
| "dispatchRule B ctx rule (ExcelAllCapsParams col r) =
     evalExcelAllCaps B rule col r (ctx_input ctx)"
| "dispatchRule B ctx rule (AudioDurationLimitParams mx) =
     evalAudioDurationLimit rule mx (ctx_input ctx)"
| "dispatchRule B ctx rule (SlaTimeDifferenceParams sp ep mx) =
     evalSlaTimeDifference B rule sp ep mx (ctx_input ctx)"
| "dispatchRule B ctx rule (ToneClassificationParams th fls) =
     evalToneClassification rule th fls (ctx_aiSignals ctx)"
| "dispatchRule B ctx rule (ImpliedAbuseDetectionParams th) =
     evalImpliedAbuseDetection rule th (ctx_aiSignals ctx)"

definition evaluateRule :: "builtins \<Rightarrow> execution_context \<Rightarrow> rule \<Rightarrow> rule_result" where
  "evaluateRule B ctx rule =
     (if \<not> enabled rule then skip rule (str ''Rule disabled'')
      else (case dispatchRule B ctx rule (params rule) of
              Inr res \<Rightarrow> res
            | Inl err \<Rightarrow> errorResult rule (exnMessage err) []))"

definition weightedScoreOf :: "builtins \<Rightarrow> rule_result list \<Rightarrow> jsnum" where
  "weightedScoreOf B results =
     (let enabledResults = filter (\<lambda>r. rr_outcome r \<noteq> SKIP) results;
          totalWeight = foldl (\<lambda>sum r. fadd B sum (rr_weight r)) (Num 0) enabledResults
      in if num_le totalWeight (Num 0) then Num 1
         else fdiv B (foldl (\<lambda>sum r. fadd B sum (fmul B (rr_score r) (rr_weight r))) (Num 0)
                        enabledResults)
                     totalWeight)"

definition passScoreThresholdOf :: "run_request \<Rightarrow> jsnum" where
  "passScoreThresholdOf request =
     (case req_options request of
        None \<Rightarrow> Num 1
      | Some opts \<Rightarrow> (case passScoreThreshold opts of None \<Rightarrow> Num 1 | Some t \<Rightarrow> t))"

definition blockerFailureForcesFailOf :: "run_request \<Rightarrow> bool" where
  "blockerFailureForcesFailOf request =
     (case req_options request of
        None \<Rightarrow> True
      | Some opts \<Rightarrow> (case blockerFailureForcesFail opts of None \<Rightarrow> True | Some b \<Rightarrow> b))"

definition contextOf :: "run_request \<Rightarrow> execution_context" where
  "contextOf request =
     \<lparr> ctx_input = req_input request, ctx_aiSignals = req_aiSignals request,
       ctx_executedAtIso = req_executedAtIso request \<rparr>"

definition runQc :: "builtins \<Rightarrow> run_request \<Rightarrow> exn + run_result" where
  "runQc B request =
     (let threshold = passScoreThresholdOf request;
          blockerForcesFail = blockerFailureForcesFailOf request
      in if num_lt threshold (Num 0) \<or> num_gt threshold (Num 1) then
           Inl (QcRuleValidationError (str ''passScoreThreshold must be between 0 and 1''))
         else
           (let ctx = contextOf request;
                results = map (evaluateRule B ctx) (req_rules request);
                weightedScore = weightedScoreOf B results;
                failedIds = map rr_ruleId (filter (\<lambda>r. rr_outcome r = FAIL) results);
                hasBlockerFail =
                  (if blockerForcesFail
                   then list_ex (\<lambda>r. rr_outcome r = FAIL \<and> rr_severity r = BLOCKER) results
                   else False);
                outcome = (if hasBlockerFail \<or> num_lt weightedScore threshold
                           then OverallFAIL else OverallPASS)
            in Inr \<lparr> summary =
                       \<lparr> engineVersion = QC_ENGINE_VERSION,
                         executedAt = req_executedAtIso request,
                         overallOutcome = outcome,
                         overallScore = mathMax (Num 0) (mathMin (Num 1) weightedScore),
                         failedRuleIds = failedIds \<rparr>,
                     ruleResults = results \<rparr>))"

section \<open>Result mapper\<close>

datatype rule_status = StatusPASS | StatusFAIL | StatusNOT_EVALUATED | StatusERROR

datatype evidence_kind = TEXT_SNIPPET | FIELD_VALUE | FILE_REF | SHEET_CELL | TIME_RANGE | GENERIC

record source_ref =
  src_storagePath :: "jsstring option"
  src_fileName :: "jsstring option"
  src_contentType :: "jsstring option"

text \<open>
  \<open>EvidenceRef\<close>. Of \<open>location\<close> only \<open>fieldPath\<close> is ever written, and \<open>snippet\<close>
  never is; \<open>ref_location\<close> is the field path.
\<close>

record evidence_ref =
  ref_kind :: evidence_kind
  ref_title :: jsstring
  ref_detail :: "jsstring option"
  ref_source :: "source_ref option"
  ref_location :: "jsstring list option"

datatype error_category = VALIDATION | INTEGRATION_ERROR | EXECUTION | RULE_EVALUATION

record public_error =
  pe_category :: error_category
  pe_code :: jsstring
  pe_message :: jsstring
  pe_help :: "jsstring option"
  pe_retryable :: bool

record rule_result_doc =
  rd_order :: nat
  rd_ruleId :: jsstring
  rd_ruleName :: jsstring
  rd_ruleType :: rule_type
  rd_weight :: jsnum
  rd_severity :: severity
  rd_status :: rule_status
  rd_score :: jsnum
  rd_reason :: "jsstring option"
  rd_evidence :: "evidence_ref list"
  rd_error :: "public_error option"

record rule_counts =
  rc_total :: nat
  rc_pass :: nat
  rc_fail :: nat
  rc_notEvaluated :: nat
  rc_error :: nat

text \<open>A string used as a condition is true when it is present and not empty.\<close>

definition truthy :: "jsstring option \<Rightarrow> bool" where
  "truthy x = (case x of None \<Rightarrow> False | Some s \<Rightarrow> s \<noteq> [])"

definition asPublicError ::
  "error_category \<Rightarrow> jsstring \<Rightarrow> jsstring \<Rightarrow> jsstring option \<Rightarrow> bool \<Rightarrow> public_error" where
  "asPublicError cat code msg help retryable =
     \<lparr> pe_category = cat, pe_code = code, pe_message = msg,
       pe_help = (if truthy help then help else None), pe_retryable = retryable \<rparr>"

fun ruleOutcomeToStatus :: "rule_outcome \<Rightarrow> rule_status" where
  "ruleOutcomeToStatus PASS = StatusPASS"
| "ruleOutcomeToStatus FAIL = StatusFAIL"
| "ruleOutcomeToStatus ERROR = StatusERROR"
| "ruleOutcomeToStatus SKIP = StatusNOT_EVALUATED"

definition firstReasonFromEvidence :: "evidence list \<Rightarrow> jsstring option" where
  "firstReasonFromEvidence ev =
     (case find (\<lambda>x. length (ev_message x) > 0) ev of
        None \<Rightarrow> None
      | Some e \<Rightarrow> Some (ev_message e))"

definition sourceOf ::
  "jsstring option \<Rightarrow> jsstring option \<Rightarrow> jsstring option \<Rightarrow> source_ref option" where
  "sourceOf sp fn ct =
     (if truthy sp \<or> truthy fn \<or> truthy ct then
        Some \<lparr> src_storagePath = (if truthy sp then sp else None),
               src_fileName = (if truthy fn then fn else None),
               src_contentType = (if truthy ct then ct else None) \<rparr>
      else None)"

text \<open>
  \<open>evidenceToRefs(evidence, options)\<close>; \<open>src\<close> holds the three source fields of the
  options and \<open>ctxPrefix\<close> its \<open>contextPrefix\<close>.
\<close>

definition evidenceToRef ::
  "builtins \<Rightarrow> source_ref option \<Rightarrow> jsstring option \<Rightarrow> evidence \<Rightarrow> evidence_ref" where
  "evidenceToRef B src ctxPrefix e =
     (let prefix = (case ctxPrefix of None \<Rightarrow> [] | Some p \<Rightarrow> p);
          ref = \<lparr> ref_kind = GENERIC,
                  ref_title = ev_type e,
                  ref_detail = Some (if prefix \<noteq> [] \<and> ev_message e \<noteq> []
                                     then prefix @ ev_message e else ev_message e),
                  ref_source = (case src of
                                  None \<Rightarrow> None
                                | Some s \<Rightarrow> sourceOf (src_storagePath s) (src_fileName s)
                                              (src_contentType s)),
                  ref_location = (case ev_path e of
                                    None \<Rightarrow> None
                                  | Some p \<Rightarrow> (if p \<noteq> [] then Some p else None)) \<rparr>;
          meta = (case ev_meta e of None \<Rightarrow> [] | Some m \<Rightarrow> m)
      in case (if ev_type e = str ''AUDIO_DURATION_LIMIT''
               then map_of meta (str ''durationMs'') else None) of
           Some (JNumber d) \<Rightarrow>
             ref\<lparr> ref_kind := TIME_RANGE, ref_title := str ''Audio duration'',
                  ref_detail := Some (str ''Duration: '' @ numToStr B (mathRound d) @ str '' ms'') \<rparr>
         | _ \<Rightarrow> ref)"

definition evidenceToRefs ::
  "builtins \<Rightarrow> evidence list \<Rightarrow> source_ref option \<Rightarrow> jsstring option \<Rightarrow> evidence_ref list" where
  "evidenceToRefs B ev src ctxPrefix = map (evidenceToRef B src ctxPrefix) ev"

definition mapRuleResultToDoc ::
  "builtins \<Rightarrow> nat \<Rightarrow> rule \<Rightarrow> rule_result \<Rightarrow> source_ref option \<Rightarrow> jsstring option \<Rightarrow>
   rule_result_doc" where
  "mapRuleResultToDoc B order rule result src ctxPrefix =
     (let status = ruleOutcomeToStatus (rr_outcome result);
          reason = (if status = StatusFAIL \<or> status = StatusNOT_EVALUATED
                    then firstReasonFromEvidence (rr_evidence result) else None);
          withReason =
            \<lparr> rd_order = order, rd_ruleId = rr_ruleId result, rd_ruleName = name rule,
              rd_ruleType = rr_type result, rd_weight = rr_weight result,
              rd_severity = rr_severity result, rd_status = status, rd_score = rr_score result,
              rd_reason = (if truthy reason then reason else None),
              rd_evidence = evidenceToRefs B (rr_evidence result) src
                              (if truthy ctxPrefix then ctxPrefix else None),
              rd_error = None \<rparr>
      in if status = StatusERROR then
           withReason\<lparr> rd_error :=
             Some \<lparr> pe_category = RULE_EVALUATION,
                    pe_code = (case rr_error result of
                                 None \<Rightarrow> str ''RULE_EVALUATION_ERROR''
                               | Some err \<Rightarrow> err_code err),
                    pe_message = str ''This rule could not be evaluated for the provided input.'',
                    pe_help = (case rr_error result of
                                 None \<Rightarrow> None
                               | Some err \<Rightarrow> (if err_message err \<noteq> []
                                              then Some (str ''Details: '' @ err_message err)
                                              else None)),
                    pe_retryable = False \<rparr> \<rparr>
         else withReason)"

definition summarizeRuleStatuses :: "rule_result_doc list \<Rightarrow> rule_counts" where
  "summarizeRuleStatuses ruleDocs =
     \<lparr> rc_total = length ruleDocs,
       rc_pass = length (filter (\<lambda>r. rd_status r = StatusPASS) ruleDocs),
       rc_fail = length (filter (\<lambda>r. rd_status r = StatusFAIL) ruleDocs),
       rc_notEvaluated = length (filter (\<lambda>r. rd_status r = StatusNOT_EVALUATED) ruleDocs),
       rc_error = length (filter (\<lambda>r. rd_status r = StatusERROR) ruleDocs) \<rparr>"

section \<open>Segmentation heuristic\<close>

subsection \<open>Text helpers\<close>

text \<open>\<open>text.replace(/\r\n/g, '\n').replace(/\r/g, '\n')\<close>.\<close>

fun crlfToLf :: "jsstring \<Rightarrow> jsstring" where
  "crlfToLf [] = []"
| "crlfToLf [c] = [c]"
| "crlfToLf (c # d # cs) =
     (if c = 13 \<and> d = 10 then 10 # crlfToLf cs else c # crlfToLf (d # cs))"

definition normalizeNewlines :: "jsstring \<Rightarrow> jsstring" where
  "normalizeNewlines text = map (\<lambda>c. if c = 13 then 10 else c) (crlfToLf text)"

text \<open>The appended character is the horizontal ellipsis U+2026.\<close>

definition clampString :: "jsstring \<Rightarrow> nat \<Rightarrow> jsstring" where
  "clampString s maxLen =
     (if length s \<le> maxLen then s else trimEnd (take (maxLen - 1) s) @ [8230])"

definition splitIntoLines :: "jsstring \<Rightarrow> jsstring list" where
  "splitIntoLines text = splitOn 10 (normalizeNewlines text)"

definition rebuildFromLines :: "jsstring list \<Rightarrow> nat \<Rightarrow> nat \<Rightarrow> jsstring" where
  "rebuildFromLines lines startLine endLineExclusive =
     trim (joinWith [10] (take (endLineExclusive - startLine) (drop startLine lines)))"

subsection \<open>The regular expressions of the source\<close>

text \<open>
  Each regular expression of the source is written out as the function that decides it.
  All of them carry the \<open>i\<close> flag and none the \<open>u\<close> flag, so a literal letter matches
  exactly its two ASCII cases. \<open>stripPrefixCI lit s\<close> matches the lower-case literal
  \<open>lit\<close> at the head of \<open>s\<close> and returns the rest. In every alternation of the source no
  alternative is a prefix of another, so at most one alternative matches at a position.
\<close>

fun stripPrefixCI :: "jsstring \<Rightarrow> jsstring \<Rightarrow> jsstring option" where
  "stripPrefixCI [] s = Some s"
| "stripPrefixCI (l # ls) [] = None"
| "stripPrefixCI (l # ls) (c # cs) = (if asciiLower c = l then stripPrefixCI ls cs else None)"

fun firstPrefixCI :: "jsstring list \<Rightarrow> jsstring \<Rightarrow> jsstring option" where
  "firstPrefixCI [] s = None"
| "firstPrefixCI (l # ls) s =
     (case stripPrefixCI l s of Some r \<Rightarrow> Some r | None \<Rightarrow> firstPrefixCI ls s)"

definition isWordChar :: "jschar \<Rightarrow> bool" where
  "isWordChar c =
     ((48 \<le> c \<and> c \<le> 57) \<or> (65 \<le> c \<and> c \<le> 90) \<or> (97 \<le> c \<and> c \<le> 122) \<or> c = 95)"

text \<open>\<open>\b\<close> right after a matched letter: the next character is no word character.\<close>

fun wordBoundary :: "jsstring \<Rightarrow> bool" where
  "wordBoundary [] = True"
| "wordBoundary (c # cs) = (\<not> isWordChar c)"

text \<open>\<open>\s+\<close> followed by one of the words and \<open>\b\<close>; the rest after the word.\<close>

definition spacesThenWord :: "jsstring list \<Rightarrow> jsstring \<Rightarrow> jsstring option" where
  "spacesThenWord ws r =
     (case r of
        [] \<Rightarrow> None
      | c # cs \<Rightarrow>
          (if isWhiteSpace c then firstPrefixCI ws (dropWhile isWhiteSpace r) else None))"

text \<open>\<open>/^(begin|end)\s+(chat|conversation|transcript)\b/i\<close>.\<close>

definition matchesBeginEnd :: "jsstring \<Rightarrow> bool" where
  "matchesBeginEnd t =
     (case firstPrefixCI [str ''begin'', str ''end''] t of
        None \<Rightarrow> False
      | Some r \<Rightarrow>
          (case spacesThenWord [str ''chat'', str ''conversation'', str ''transcript''] r of
             None \<Rightarrow> False
           | Some r' \<Rightarrow> wordBoundary r'))"

text \<open>\<open>/^end\s+of\s+(chat|conversation)\b/i\<close>.\<close>

definition matchesEndOf :: "jsstring \<Rightarrow> bool" where
  "matchesEndOf t =
     (case stripPrefixCI (str ''end'') t of
        None \<Rightarrow> False
      | Some r \<Rightarrow>
          (case spacesThenWord [str ''of''] r of
             None \<Rightarrow> False
           | Some r' \<Rightarrow>
               (case spacesThenWord [str ''chat'', str ''conversation''] r' of
                  None \<Rightarrow> False
                | Some r'' \<Rightarrow> wordBoundary r'')))"

text \<open>The first test is \<open>/^[-=*#]{5,}$/\<close>.\<close>

definition isSeparatorLine :: "jsstring \<Rightarrow> bool" where
  "isSeparatorLine line =
     (let t = trim line in
      if t = [] then False
      else if length t \<ge> 5 \<and> list_all (\<lambda>c. c = 45 \<or> c = 61 \<or> c = 42 \<or> c = 35) t then True
      else if matchesBeginEnd t then True
      else if matchesEndOf t then True
      else False)"

text \<open>
  The tail \<open>\s*(.+?)\s*$\<close> against \<open>R\<close>, giving what the group captures. After the greedy
  \<open>\s*\<close> the lazy group runs to the last character that is no white space, and fails when
  it would have to cross a line terminator; when \<open>R\<close> is white space only, backtracking
  hands the group the last character of \<open>R\<close> that is no line terminator.
\<close>

definition lastNonTerminator :: "jsstring \<Rightarrow> jsstring option" where
  "lastNonTerminator R =
     (case filter (\<lambda>c. \<not> isLineTerminator c) R of [] \<Rightarrow> None | c # cs \<Rightarrow> Some [last (c # cs)])"

definition lazyToEnd :: "jsstring \<Rightarrow> jsstring option" where
  "lazyToEnd R = (if list_ex isLineTerminator (trimEnd R) then None else Some (trimEnd R))"

definition captureAfterSpaces :: "jsstring \<Rightarrow> jsstring option" where
  "captureAfterSpaces R =
     (let R' = dropWhile isWhiteSpace R in
      if R' \<noteq> [] then lazyToEnd R' else lastNonTerminator R)"

text \<open>
  The tail \<open>\s*[:#]?\s*(.+?)\s*$\<close>. When nothing but line terminators follows the mark,
  the optional mark is given back and becomes the capture.
\<close>

definition captureAfterMark :: "jsstring \<Rightarrow> jsstring option" where
  "captureAfterMark R =
     (case dropWhile isWhiteSpace R of
        [] \<Rightarrow> lastNonTerminator R
      | p # rest \<Rightarrow>
          (if p = 58 \<or> p = 35 then
             (let R2 = dropWhile isWhiteSpace rest in
              if R2 \<noteq> [] then lazyToEnd R2
              else (case lastNonTerminator rest of None \<Rightarrow> Some [p] | Some m \<Rightarrow> Some m))
           else lazyToEnd (p # rest)))"

datatype participant_role = Operator | Customer

text \<open>\<open>/^\s*(w1|w2|...)\s*:\s*(.+?)\s*$/i\<close>, giving the second group.\<close>

definition labeledValue :: "jsstring list \<Rightarrow> jsstring \<Rightarrow> jsstring option" where
  "labeledValue ws line =
     (case firstPrefixCI ws (dropWhile isWhiteSpace line) of
        None \<Rightarrow> None
      | Some r \<Rightarrow>
          (case dropWhile isWhiteSpace r of
             [] \<Rightarrow> None
           | c # R \<Rightarrow> (if c = 58 then captureAfterSpaces R else None)))"

definition parseLabeledParticipant :: "jsstring \<Rightarrow> (participant_role \<times> jsstring) option" where
  "parseLabeledParticipant line =
     (case labeledValue [str ''operator'', str ''agent'', str ''advisor'', str ''rep''] line of
        Some m \<Rightarrow> Some (Operator, trim m)
      | None \<Rightarrow>
          (case labeledValue [str ''customer'', str ''client'', str ''caller'', str ''buyer''] line of
             Some n \<Rightarrow> Some (Customer, trim n)
           | None \<Rightarrow> None))"

text \<open>\<open>(id|#)\<close> and the head \<open>(chat\s*(id|#)|conversation\s*id|ticket\s*(id|#))\<close>.\<close>

definition idOrHash :: "jsstring \<Rightarrow> jsstring option" where
  "idOrHash r =
     (case stripPrefixCI (str ''id'') r of
        Some x \<Rightarrow> Some x
      | None \<Rightarrow> (case r of [] \<Rightarrow> None | c # cs \<Rightarrow> (if c = 35 then Some cs else None)))"

definition headerKeyword :: "jsstring \<Rightarrow> jsstring option" where
  "headerKeyword s =
     (case stripPrefixCI (str ''chat'') s of
        Some r \<Rightarrow> idOrHash (dropWhile isWhiteSpace r)
      | None \<Rightarrow>
          (case stripPrefixCI (str ''conversation'') s of
             Some r \<Rightarrow> stripPrefixCI (str ''id'') (dropWhile isWhiteSpace r)
           | None \<Rightarrow>
               (case stripPrefixCI (str ''ticket'') s of
                  Some r \<Rightarrow> idOrHash (dropWhile isWhiteSpace r)
                | None \<Rightarrow> None)))"

definition findChatIdHeader :: "jsstring \<Rightarrow> jsstring option" where
  "findChatIdHeader line =
     (case headerKeyword (dropWhile isWhiteSpace line) of
        None \<Rightarrow> None
      | Some R \<Rightarrow>
          (case captureAfterMark R of
             None \<Rightarrow> None
           | Some m \<Rightarrow> (let chatId = trim m in if chatId = [] then None else Some chatId)))"

subsection \<open>Segments\<close>

record participants =
  p_operator :: "jsstring option"
  p_customer :: "jsstring option"

record chat_segment =
  cs_index :: nat
  cs_title :: jsstring
  cs_chatId :: "jsstring option"
  cs_participants :: "participants option"
  cs_text :: jsstring

definition computeSegmentsFromStarts :: "jsstring list \<Rightarrow> nat list \<Rightarrow> (nat \<times> nat) list" where
  "computeSegmentsFromStarts lines startLines =
     (let sorted = sort (remdups startLines)
      in filter (\<lambda>(s, e). s < e) (zip sorted (tl sorted @ [length lines])))"

definition filterNonTrivialSegments ::
  "jsstring list \<Rightarrow> (nat \<times> nat) list \<Rightarrow> (nat \<times> nat) list" where
  "filterNonTrivialSegments lines segments =
     (let minChars = 120
      in filter (\<lambda>(s, e). length (rebuildFromLines lines s e) \<ge> minChars) segments)"

text \<open>The three scans over the lines, each giving its start lines in scan order.\<close>

definition chatIdStarts :: "jsstring list \<Rightarrow> (nat \<times> jsstring) list" where
  "chatIdStarts lines =
     List.map_filter
       (\<lambda>i. case findChatIdHeader (lines ! i) of None \<Rightarrow> None | Some cid \<Rightarrow> Some (i, cid))
       [0 ..< length lines]"

definition nextNonBlank :: "jsstring list \<Rightarrow> nat \<Rightarrow> nat option" where
  "nextNonBlank lines j = find (\<lambda>k. trim (lines ! k) \<noteq> []) [j ..< length lines]"

definition sepStarts :: "jsstring list \<Rightarrow> nat list" where
  "sepStarts lines =
     List.map_filter
       (\<lambda>i. if isSeparatorLine (lines ! i) then nextNonBlank lines (i + 1) else None)
       [0 ..< length lines]"

fun setRole :: "participants \<Rightarrow> participant_role \<times> jsstring \<Rightarrow> participants" where
  "setRole ps (Operator, n) = ps\<lparr> p_operator := Some n \<rparr>"
| "setRole ps (Customer, n) = ps\<lparr> p_customer := Some n \<rparr>"

definition participantsAt :: "jsstring list \<Rightarrow> nat \<Rightarrow> (nat \<times> participants) option" where
  "participantsAt lines i =
     (case parseLabeledParticipant (lines ! i) of
        None \<Rightarrow> None
      | Some first \<Rightarrow>
          (let ps = setRole \<lparr> p_operator = None, p_customer = None \<rparr> first;
               window = [i + 1 ..< min (length lines) (i + 10)];
               ps' = (case List.map_filter (\<lambda>j. parseLabeledParticipant (lines ! j)) window of
                        [] \<Rightarrow> ps
                      | nxt # others \<Rightarrow> setRole ps nxt);
               hasBoth = (truthy (p_operator ps') \<and> truthy (p_customer ps'))
           in if hasBoth then Some (i, ps') else None))"

definition participantStarts :: "jsstring list \<Rightarrow> (nat \<times> participants) list" where
  "participantStarts lines = List.map_filter (participantsAt lines) [0 ..< length lines]"

subsection \<open>splitTranscriptIntoChats\<close>

datatype chat_split_strategy = SINGLE | CHAT_ID | SEPARATORS | SPEAKER_BLOCKS

record chat_split =
  strategy :: chat_split_strategy
  warning :: "jsstring option"
  chats :: "chat_segment list"

definition genericTitle :: "nat \<Rightarrow> jsstring" where
  "genericTitle idx = str ''Chat '' @ natToString (idx + 1)"

definition chatIdChat ::
  "jsstring list \<Rightarrow> (nat \<times> jsstring) list \<Rightarrow> nat \<Rightarrow> nat \<times> nat \<Rightarrow> chat_segment" where
  "chatIdChat lines starts idx seg =
     (let chatId = (case find (\<lambda>x. fst x = fst seg) starts of
                      None \<Rightarrow> None | Some h \<Rightarrow> Some (snd h))
      in \<lparr> cs_index = idx,
           cs_title = (case chatId of
                         None \<Rightarrow> genericTitle idx
                       | Some c \<Rightarrow> (if c \<noteq> [] then str ''Chat '' @ clampString c 48
                                     else genericTitle idx)),
           cs_chatId = (if truthy chatId then chatId else None),
           cs_participants = None,
           cs_text = rebuildFromLines lines (fst seg) (snd seg) \<rparr>)"

definition separatorChat :: "jsstring list \<Rightarrow> nat \<Rightarrow> nat \<times> nat \<Rightarrow> chat_segment" where
  "separatorChat lines idx seg =
     \<lparr> cs_index = idx, cs_title = genericTitle idx, cs_chatId = None, cs_participants = None,
       cs_text = rebuildFromLines lines (fst seg) (snd seg) \<rparr>"

text \<open>The title joins the two names with the left right arrow U+2194.\<close>

definition speakerChat ::
  "jsstring list \<Rightarrow> (nat \<times> participants) list \<Rightarrow> nat \<Rightarrow> nat \<times> nat \<Rightarrow> chat_segment" where
  "speakerChat lines starts idx seg =
     (let ps = (case find (\<lambda>x. fst x = fst seg) starts of
                  None \<Rightarrow> None | Some h \<Rightarrow> Some (snd h))
      in \<lparr> cs_index = idx,
           cs_title =
             (case ps of
                None \<Rightarrow> genericTitle idx
              | Some p \<Rightarrow>
                  (if truthy (p_operator p) \<and> truthy (p_customer p)
                   then clampString (the (p_operator p)) 28 @ [32, 8596, 32] @
                        clampString (the (p_customer p)) 28
                   else genericTitle idx)),
           cs_chatId = None,
           cs_participants = ps,
           cs_text = rebuildFromLines lines (fst seg) (snd seg) \<rparr>)"

definition indexed :: "'a list \<Rightarrow> (nat \<times> 'a) list" where
  "indexed xs = zip [0 ..< length xs] xs"

definition chatIdAttempt :: "jsstring list \<Rightarrow> chat_split option" where
  "chatIdAttempt lines =
     (let starts = chatIdStarts lines in
      if length starts \<ge> 2 then
        (let segments = computeSegmentsFromStarts lines (map fst starts);
             usable = filterNonTrivialSegments lines segments
         in if length usable \<ge> 2 then
              Some \<lparr> strategy = CHAT_ID, warning = None,
                     chats = map (\<lambda>(idx, seg). chatIdChat lines starts idx seg) (indexed usable) \<rparr>
            else None)
      else None)"

definition separatorAttempt :: "jsstring list \<Rightarrow> chat_split option" where
  "separatorAttempt lines =
     (let seps = sepStarts lines in
      if length seps \<ge> 1 then
        (let starts = 0 # seps;
             segments = computeSegmentsFromStarts lines starts;
             usable = filterNonTrivialSegments lines segments
         in if length usable \<ge> 2 then
              Some \<lparr> strategy = SEPARATORS, warning = None,
                     chats = map (\<lambda>(idx, seg). separatorChat lines idx seg) (indexed usable) \<rparr>
            else None)
      else None)"

definition speakerAttempt :: "jsstring list \<Rightarrow> chat_split option" where
  "speakerAttempt lines =
     (let starts = participantStarts lines in
      if length starts \<ge> 2 then
        (let segments = computeSegmentsFromStarts lines (map fst starts);
             usable = filterNonTrivialSegments lines segments
         in if length usable \<ge> 2 then
              Some \<lparr> strategy = SPEAKER_BLOCKS, warning = None,
                     chats = map (\<lambda>(idx, seg). speakerChat lines starts idx seg) (indexed usable) \<rparr>
            else None)
      else None)"

definition singleChat :: "jsstring \<Rightarrow> chat_segment" where
  "singleChat text =
     \<lparr> cs_index = 0, cs_title = str ''Chat 1'', cs_chatId = None, cs_participants = None,
       cs_text = text \<rparr>"

definition inconclusiveWarning :: jsstring where
  "inconclusiveWarning =
     str ''Could not reliably detect multiple chats in this file. '' @
     str ''The entire upload was treated as a single chat. '' @
     str ''If this is wrong, export chats with a Chat ID header or separators between chats.''"

definition splitTranscriptIntoChats :: "jsstring \<Rightarrow> chat_split" where
  "splitTranscriptIntoChats text =
     (let normalized = trim (normalizeNewlines text) in
      if normalized = [] then
        \<lparr> strategy = SINGLE, warning = Some (str ''No text found to split.''),
          chats = [singleChat []] \<rparr>
      else
        (let lines = splitIntoLines normalized in
         case chatIdAttempt lines of
           Some r \<Rightarrow> r
         | None \<Rightarrow>
             (case separatorAttempt lines of
                Some r \<Rightarrow> r
              | None \<Rightarrow>
                  (case speakerAttempt lines of
                     Some r \<Rightarrow> r
                   | None \<Rightarrow>
                       \<lparr> strategy = SINGLE, warning = Some inconclusiveWarning,
                         chats = [singleChat normalized] \<rparr>))))"

section \<open>Aggregator\<close>

fun statusRank :: "rule_status \<Rightarrow> nat" where
  "statusRank StatusNOT_EVALUATED = 0"
| "statusRank StatusPASS = 1"
| "statusRank StatusFAIL = 2"
| "statusRank StatusERROR = 3"

definition rankToStatus :: "nat \<Rightarrow> rule_status" where
  "rankToStatus rank =
     (if rank \<ge> 3 then StatusERROR
      else if rank = 2 then StatusFAIL
      else if rank = 1 then StatusPASS
      else StatusNOT_EVALUATED)"

text \<open>
  \<open>Math.max\<close> over the ranks of a non-empty list of entries; ranks are natural numbers, so
  the fold may start at 0.
\<close>

definition worstRankOf :: "rule_result_doc list \<Rightarrow> nat" where
  "worstRankOf ds = foldl max 0 (map (\<lambda>d. statusRank (rd_status d)) ds)"

definition finiteOrZero :: "jsnum \<Rightarrow> jsnum" where
  "finiteOrZero x = (if isFinite x then x else Num 0)"

definition chatPrefix :: "chat_segment \<Rightarrow> jsstring" where
  "chatPrefix c =
     str ''Chat '' @ natToString (cs_index c + 1) @
     (if cs_title c \<noteq> [] then str '' ('' @ cs_title c @ str '')'' else []) @ str '': ''"

definition prefixEvidence :: "jsstring \<Rightarrow> evidence_ref \<Rightarrow> evidence_ref" where
  "prefixEvidence prefix ev =
     ev\<lparr> ref_detail :=
           Some (case ref_detail ev of
                   None \<Rightarrow> trimEnd prefix
                 | Some d \<Rightarrow> (if d \<noteq> [] then prefix @ d else trimEnd prefix)) \<rparr>"

text \<open>
  The body of the loop over rule indices, for the entries \<open>(chat, docs[i])\<close> of one index:
  \<open>entries[0]\<close> is the base document.
\<close>

definition combineEntries :: "(chat_segment \<times> rule_result_doc) list \<Rightarrow> rule_result_doc" where
  "combineEntries entries =
     (let status = rankToStatus (worstRankOf (map snd entries));
          score = mathMinList (map (\<lambda>e. finiteOrZero (rd_score (snd e))) entries);
          reason =
            (if status = StatusFAIL \<or> status = StatusNOT_EVALUATED then
               (case find (\<lambda>e. rd_status (snd e) = status \<and> truthy (rd_reason (snd e))) entries of
                  None \<Rightarrow> None
                | Some e \<Rightarrow> rd_reason (snd e))
             else None);
          evidence =
            take 25 (concat (map (\<lambda>e. map (prefixEvidence (chatPrefix (fst e)))
                                         (rd_evidence (snd e)))
                               (filter (\<lambda>e. rd_status (snd e) = status) entries)));
          base = snd (hd entries)
      in base\<lparr> rd_status := status, rd_score := score,
               rd_reason := (if truthy reason then reason else rd_reason base),
               rd_evidence := evidence \<rparr>)"

text \<open>
  Reading \<open>x.docs[i]\<close> past the end of a segment's list gives \<open>undefined\<close>, and the first
  access to its \<open>status\<close> throws a \<open>TypeError\<close>.
\<close>

definition entriesAt ::
  "(chat_segment \<times> rule_result_doc list) list \<Rightarrow> nat \<Rightarrow> exn + (chat_segment \<times> rule_result_doc) list"
  where
  "entriesAt perChat i =
     (if list_all (\<lambda>x. i < length (snd x)) perChat
      then Inr (map (\<lambda>x. (fst x, snd x ! i)) perChat)
      else Inl (TypeError (str ''Cannot read properties of undefined (reading status)'')))"

fun combineFrom ::
  "(chat_segment \<times> rule_result_doc list) list \<Rightarrow> nat list \<Rightarrow> exn + rule_result_doc list" where
  "combineFrom perChat [] = Inr []"
| "combineFrom perChat (i # is) =
     (case entriesAt perChat i of
        Inl e \<Rightarrow> Inl e
      | Inr entries \<Rightarrow>
          (case combineFrom perChat is of
             Inl e \<Rightarrow> Inl e
           | Inr out \<Rightarrow> Inr (combineEntries entries # out)))"

definition combineAggregatedRuleDocs ::
  "(chat_segment \<times> rule_result_doc list) list \<Rightarrow> exn + rule_result_doc list" where
  "combineAggregatedRuleDocs perChat =
     (if perChat = [] then Inr []
      else combineFrom perChat [0 ..< length (snd (hd perChat))])"

record chat_summary_body =
  sm_overallOutcome :: overall_outcome
  sm_overallScore :: jsnum
  sm_failedRuleIds :: "jsstring list"
  sm_ruleCounts :: rule_counts

record chat_result_summary =
  crs_index :: nat
  crs_title :: jsstring
  crs_chatId :: "jsstring option"
  crs_participants :: "participants option"
  crs_summary :: chat_summary_body

text \<open>\<open>Array.from(new Set(xs))\<close>: the first occurrence of each element, in order.\<close>

definition dedupe :: "'a list \<Rightarrow> 'a list" where
  "dedupe xs = rev (remdups (rev xs))"

record combined_summary =
  cmb_overallOutcome :: overall_outcome
  cmb_overallScore :: jsnum
  cmb_failedRuleIds :: "jsstring list"

definition combineRunSummaryFromChats :: "chat_result_summary list \<Rightarrow> combined_summary" where
  "combineRunSummaryFromChats chatSummaries =
     \<lparr> cmb_overallOutcome =
         (if list_ex (\<lambda>c. sm_overallOutcome (crs_summary c) = OverallFAIL) chatSummaries
          then OverallFAIL else OverallPASS),
       cmb_overallScore =
         (if chatSummaries \<noteq> []
          then mathMinList (map (\<lambda>c. sm_overallScore (crs_summary c)) chatSummaries)
          else Num 1),
       cmb_failedRuleIds =
         dedupe (concat (map (\<lambda>c. sm_failedRuleIds (crs_summary c)) chatSummaries)) \<rparr>"

section \<open>Run orchestrator\<close>

subsection \<open>Documents and store\<close>

text \<open>
  The documents of one tenant that \<open>processQcRun\<close> reads and writes. Fields that only hold
  a clock reading (\<open>startedAt\<close>, \<open>completedAt\<close>, \<open>createdAt\<close>) and the fields of a run
  that only the input loader reads are left out. The random ids of rule-result and
  chat-result documents are left out as well: a subcollection is the list of its documents
  in write order, under the id of its result (and the index of its chat).
\<close>

datatype run_status = QUEUED | RUNNING | SUCCEEDED | FAILED | CANCELLED

datatype input_source = UPLOAD | INTEGRATION | INLINE

datatype write_state = WRITING | COMPLETE

record upload_ref =
  up_storagePath :: "jsstring option"
  up_fileName :: "jsstring option"
  up_contentType :: "jsstring option"

record run_doc =
  run_runId :: jsstring
  run_tenantId :: jsstring
  run_status :: run_status
  run_templateId :: jsstring
  run_templateVersionId :: "jsstring option"
  run_templateVersion :: nat
  run_inputSource :: input_source
  run_upload :: "upload_ref option"
  run_inputFingerprint :: "jsstring option"
  run_error :: "public_error option"
  run_resultId :: "jsstring option"

record integrity =
  int_templateVersionId :: "jsstring option"
  int_templateId :: "jsstring option"
  int_templateVersion :: nat
  int_inputFingerprint :: jsstring

record chat_meta =
  cm_enabled :: bool
  cm_strategy :: chat_split_strategy
  cm_chatCount :: nat
  cm_warning :: "jsstring option"

record result_doc =
  res_resultId :: jsstring
  res_tenantId :: jsstring
  res_runId :: jsstring
  res_engineVersion :: jsstring
  res_executedAt :: jsstring
  res_summary :: chat_summary_body
  res_integrity :: integrity
  res_chat :: "chat_meta option"
  res_writeState :: "write_state option"
  res_expectedRuleCount :: "nat option"

record audit_entry =
  au_tenantId :: jsstring
  au_actorUid :: jsstring
  au_actorRole :: "jsstring option"
  au_action :: jsstring
  au_resourceType :: jsstring
  au_resourceId :: jsstring
  au_meta :: "(jsstring \<times> jsstring) list"

record store =
  runs :: "jsstring \<rightharpoonup> run_doc"
  results :: "jsstring \<rightharpoonup> result_doc"
  ruleResultDocs :: "(jsstring \<times> rule_result_doc) list"
  chatResults :: "(jsstring \<times> chat_result_summary) list"
  chatRuleResultDocs :: "((jsstring \<times> nat) \<times> rule_result_doc) list"
  auditLogs :: "audit_entry list"

definition ruleResultsOf :: "store \<Rightarrow> jsstring \<Rightarrow> rule_result_doc list" where
  "ruleResultsOf s rid = map snd (filter (\<lambda>p. fst p = rid) (ruleResultDocs s))"

subsection \<open>Atomic writes\<close>

text \<open>
  What the orchestrator throws or sees thrown: an exception object, a public error (an
  object with \<open>category\<close>, \<open>code\<close> and \<open>message\<close>), or the rejection of a store call.
\<close>

datatype thrown = Thrown exn | ThrownPublic public_error | StoreRejected jsstring

text \<open>
  Each constructor is one call that the store commits atomically: the guarded transaction
  at the head of \<open>processQcRun\<close>, the single batch, \<open>resultRef.create\<close>, one batch of
  rule results, \<open>chatRef.create\<close>, one batch of a chat's rule results, the final
  transaction, \<open>runRef.update\<close> in the \<open>catch\<close> block, and the creation of an audit entry.
\<close>

datatype write_op =
    BeginTx jsstring
  | SingleBatch result_doc "rule_result_doc list" jsstring jsstring
  | CreateResult result_doc
  | RuleChunk jsstring "rule_result_doc list"
  | CreateChatResult jsstring chat_result_summary
  | ChatRuleChunk jsstring nat "rule_result_doc list"
  | FinalTx jsstring jsstring jsstring
  | MarkFailed jsstring public_error
  | WriteAudit audit_entry

text \<open>
  The store's part: \<open>create\<close> rejects an existing document, \<open>update\<close> a missing one, and a
  batch or transaction takes effect as a whole or not at all.
\<close>

definition succeedRun :: "run_doc \<Rightarrow> jsstring \<Rightarrow> jsstring \<Rightarrow> run_doc" where
  "succeedRun run resultId fingerprint =
     run\<lparr> run_status := SUCCEEDED, run_resultId := Some resultId,
          run_inputFingerprint := Some fingerprint \<rparr>"

fun applyOp :: "write_op \<Rightarrow> store \<Rightarrow> thrown + store" where
  "applyOp (BeginTx runId) s =
     (case runs s runId of
        None \<Rightarrow> Inl (Thrown (Error (str ''Run not found'')))
      | Some run \<Rightarrow>
          (if run_status run = CANCELLED then Inr s
           else if run_status run \<noteq> QUEUED then Inr s
           else Inr (s\<lparr> runs := (runs s)(runId \<mapsto> run\<lparr> run_status := RUNNING \<rparr>) \<rparr>)))"
| "applyOp (SingleBatch doc ruleDocs runId fingerprint) s =
     (case results s (res_resultId doc) of
        Some existing \<Rightarrow> Inl (StoreRejected (str ''ALREADY_EXISTS''))
      | None \<Rightarrow>
          (case runs s runId of
             None \<Rightarrow> Inl (StoreRejected (str ''NOT_FOUND''))
           | Some run \<Rightarrow>
               Inr (s\<lparr> results := (results s)(res_resultId doc \<mapsto> doc),
                        ruleResultDocs :=
                          ruleResultDocs s @ map (\<lambda>d. (res_resultId doc, d)) ruleDocs,
                        runs := (runs s)(runId \<mapsto>
                                  succeedRun run (res_resultId doc) fingerprint) \<rparr>)))"
| "applyOp (CreateResult doc) s =
     (case results s (res_resultId doc) of
        Some existing \<Rightarrow> Inl (StoreRejected (str ''ALREADY_EXISTS''))
      | None \<Rightarrow> Inr (s\<lparr> results := (results s)(res_resultId doc \<mapsto> doc) \<rparr>))"
| "applyOp (RuleChunk resultId ruleDocs) s =
     Inr (s\<lparr> ruleResultDocs := ruleResultDocs s @ map (\<lambda>d. (resultId, d)) ruleDocs \<rparr>)"
| "applyOp (CreateChatResult resultId chat) s =
     Inr (s\<lparr> chatResults := chatResults s @ [(resultId, chat)] \<rparr>)"
| "applyOp (ChatRuleChunk resultId chatIndex ruleDocs) s =
     Inr (s\<lparr> chatRuleResultDocs :=
              chatRuleResultDocs s @ map (\<lambda>d. ((resultId, chatIndex), d)) ruleDocs \<rparr>)"
| "applyOp (FinalTx runId resultId fingerprint) s =
     (case runs s runId of
        None \<Rightarrow> Inl (Thrown (Error (str ''Run not found'')))
      | Some cur \<Rightarrow>
          (if run_status cur \<noteq> RUNNING then Inr s
           else (case results s resultId of
                   None \<Rightarrow> Inl (StoreRejected (str ''NOT_FOUND''))
                 | Some doc \<Rightarrow>
                     Inr (s\<lparr> results := (results s)(resultId \<mapsto>
                                           doc\<lparr> res_writeState := Some COMPLETE \<rparr>),
                              runs := (runs s)(runId \<mapsto>
                                        succeedRun cur resultId fingerprint) \<rparr>))))"
| "applyOp (MarkFailed runId err) s =
     (case runs s runId of
        None \<Rightarrow> Inl (StoreRejected (str ''NOT_FOUND''))
      | Some run \<Rightarrow>
          Inr (s\<lparr> runs := (runs s)(runId \<mapsto>
                             run\<lparr> run_status := FAILED, run_error := Some err \<rparr>) \<rparr>))"
| "applyOp (WriteAudit entry) s = Inr (s\<lparr> auditLogs := auditLogs s @ [entry] \<rparr>)"

text \<open>
  Running a sequence of awaited writes. \<open>F k\<close> says that the \<open>k\<close>-th store call of the
  invocation is rejected for a reason outside the model (the store is unreachable, a
  random id collides); the sequence stops at the first rejection. The result is the list of
  the states the store goes through, the state it is left in, what was thrown if anything,
  and the number of the next call. A process that dies leaves the store in one of the
  listed states.
\<close>

fun execOps ::
  "(nat \<Rightarrow> bool) \<Rightarrow> nat \<Rightarrow> write_op list \<Rightarrow> store \<Rightarrow>
   store list \<times> store \<times> thrown option \<times> nat" where
  "execOps F k [] s = ([], s, None, k)"
| "execOps F k (w # ws) s =
     (if F k then ([], s, Some (StoreRejected (str ''UNAVAILABLE'')), Suc k)
      else (case applyOp w s of
              Inl e \<Rightarrow> ([], s, Some e, Suc k)
            | Inr s' \<Rightarrow>
                (case execOps F (Suc k) ws s' of
                   (tr, sf, th, k') \<Rightarrow> (s' # tr, sf, th, k'))))"

subsection \<open>Computing the result of a run\<close>

text \<open>
  What one invocation takes from outside: the rule snapshot and the normalised input with
  its fingerprint, as the Firestore reads, the storage download, the schema parse and the
  normalisers deliver them for a run document (or what they throw), the reading of the
  clock, and the fresh id of the result document.
\<close>

record environment =
  env_fetchRules :: "run_doc \<Rightarrow> thrown + rule list"
  env_loadInput :: "run_doc \<Rightarrow> thrown + (normalized_input \<times> jsstring)"
  env_executedAtIso :: jsstring
  env_resultId :: jsstring

record invocation =
  inv_tenantId :: jsstring
  inv_runId :: jsstring
  inv_actorUid :: jsstring
  inv_actorRole :: "jsstring option"

text \<open>The fail-fast checks on an upload reference.\<close>

definition validateUpload :: "invocation \<Rightarrow> run_doc \<Rightarrow> thrown + unit" where
  "validateUpload call run =
     (if run_inputSource run = UPLOAD then
        (case (case run_upload run of None \<Rightarrow> None | Some u \<Rightarrow> up_storagePath u) of
           None \<Rightarrow>
             Inl (ThrownPublic (asPublicError VALIDATION (str ''UPLOAD_MISSING_STORAGE_PATH'')
                    (str ''The uploaded file reference is missing.'')
                    (Some (str ''Please re-upload the file and try again.'')) False))
         | Some storagePath \<Rightarrow>
             (if storagePath = [] then
                Inl (ThrownPublic (asPublicError VALIDATION (str ''UPLOAD_MISSING_STORAGE_PATH'')
                       (str ''The uploaded file reference is missing.'')
                       (Some (str ''Please re-upload the file and try again.'')) False))
              else if \<not> startsWith storagePath
                          (str ''tenants/'' @ inv_tenantId call @ str ''/uploads/'' @
                           run_runId run @ str ''/'')
              then
                Inl (ThrownPublic (asPublicError VALIDATION (str ''UPLOAD_INVALID_STORAGE_PATH'')
                       (str ''The uploaded file reference is invalid.'')
                       (Some (str ''Please re-upload the file and try again.'')) False))
              else Inr ()))
      else Inr ())"

definition sourceForEvidence :: "run_doc \<Rightarrow> source_ref option" where
  "sourceForEvidence run =
     (if run_inputSource run = UPLOAD then
        (let u = run_upload run;
             sp = (case u of None \<Rightarrow> None | Some x \<Rightarrow> up_storagePath x);
             fn = (case u of None \<Rightarrow> None | Some x \<Rightarrow> up_fileName x);
             ct = (case u of None \<Rightarrow> None | Some x \<Rightarrow> up_contentType x)
         in Some \<lparr> src_storagePath = (if truthy sp then sp else None),
                  src_fileName = (if truthy fn then fn else None),
                  src_contentType = (if truthy ct then ct else None) \<rparr>)
      else None)"

definition fixedOptions :: execution_options where
  "fixedOptions = \<lparr> passScoreThreshold = Some (Num 1), blockerFailureForcesFail = Some True \<rparr>"

text \<open>\<open>result.ruleResults.map((rr, i) => mapRuleResultToDoc({ order: i, rule: rules[i]!, ... }))\<close>.\<close>

definition mapDocs ::
  "builtins \<Rightarrow> rule list \<Rightarrow> rule_result list \<Rightarrow> source_ref option \<Rightarrow> rule_result_doc list"
  where
  "mapDocs B rules rrs src =
     map (\<lambda>(i, rule, rr). mapRuleResultToDoc B i rule rr src None)
       (zip [0 ..< length rrs] (zip rules rrs))"

record per_chat_computed =
  pc_chat :: chat_segment
  pc_summary :: chat_summary_body
  pc_ruleDocs :: "rule_result_doc list"

definition computeChat ::
  "builtins \<Rightarrow> rule list \<Rightarrow> jsstring \<Rightarrow> source_ref option \<Rightarrow> chat_segment \<Rightarrow>
   exn + per_chat_computed" where
  "computeChat B rules executedAtIso src chat =
     (case runQc B \<lparr> req_input = TextInput (cs_text chat), req_rules = rules,
                     req_executedAtIso = executedAtIso, req_aiSignals = None,
                     req_options = Some fixedOptions \<rparr> of
        Inl e \<Rightarrow> Inl e
      | Inr chatResult \<Rightarrow>
          (let docs = mapDocs B rules (ruleResults chatResult) src;
               counts = summarizeRuleStatuses docs
           in Inr \<lparr> pc_chat = chat,
                    pc_summary =
                      \<lparr> sm_overallOutcome = overallOutcome (summary chatResult),
                        sm_overallScore = overallScore (summary chatResult),
                        sm_failedRuleIds = failedRuleIds (summary chatResult),
                        sm_ruleCounts = counts \<rparr>,
                    pc_ruleDocs = docs \<rparr>))"

text \<open>\<open>chats.map(...)\<close> with a callback that may throw: the first exception ends the map.\<close>

fun mapThrowing :: "('a \<Rightarrow> exn + 'b) \<Rightarrow> 'a list \<Rightarrow> exn + 'b list" where
  "mapThrowing f [] = Inr []"
| "mapThrowing f (x # xs) =
     (case f x of
        Inl e \<Rightarrow> Inl e
      | Inr y \<Rightarrow> (case mapThrowing f xs of Inl e \<Rightarrow> Inl e | Inr ys \<Rightarrow> Inr (y # ys)))"

definition chatSummaryOf :: "per_chat_computed \<Rightarrow> chat_result_summary" where
  "chatSummaryOf c =
     \<lparr> crs_index = cs_index (pc_chat c), crs_title = cs_title (pc_chat c),
       crs_chatId = (if truthy (cs_chatId (pc_chat c)) then cs_chatId (pc_chat c) else None),
       crs_participants = cs_participants (pc_chat c),
       crs_summary = pc_summary c \<rparr>"

text \<open>What the evaluation hands to the persistence step.\<close>

record computed =
  cp_multiChatEnabled :: bool
  cp_aggregatedRuleDocs :: "rule_result_doc list"
  cp_ruleCounts :: rule_counts
  cp_runSummary :: combined_summary
  cp_chatSummaries :: "chat_result_summary list option"
  cp_perChatComputed :: "per_chat_computed list option"
  cp_chatMeta :: "chat_meta option"
  cp_executedAt :: jsstring

definition evaluateChats ::
  "builtins \<Rightarrow> rule list \<Rightarrow> jsstring \<Rightarrow> source_ref option \<Rightarrow> chat_split \<Rightarrow> exn + computed"
  where
  "evaluateChats B rules executedAtIso src split =
     (case mapThrowing (computeChat B rules executedAtIso src) (chats split) of
        Inl e \<Rightarrow> Inl e
      | Inr perChatComputed \<Rightarrow>
          (let chatSummaries = map chatSummaryOf perChatComputed in
           case combineAggregatedRuleDocs
                  (map (\<lambda>c. (pc_chat c, pc_ruleDocs c)) perChatComputed) of
             Inl e \<Rightarrow> Inl e
           | Inr aggregatedRuleDocs \<Rightarrow>
               Inr \<lparr> cp_multiChatEnabled = True,
                     cp_aggregatedRuleDocs = aggregatedRuleDocs,
                     cp_ruleCounts = summarizeRuleStatuses aggregatedRuleDocs,
                     cp_runSummary = combineRunSummaryFromChats chatSummaries,
                     cp_chatSummaries = Some chatSummaries,
                     cp_perChatComputed = Some perChatComputed,
                     cp_chatMeta =
                       Some \<lparr> cm_enabled = True, cm_strategy = strategy split,
                              cm_chatCount = length (chats split),
                              cm_warning = (if truthy (warning split)
                                            then warning split else None) \<rparr>,
                     cp_executedAt = executedAtIso \<rparr>))"

definition evaluateWhole ::
  "builtins \<Rightarrow> rule list \<Rightarrow> normalized_input \<Rightarrow> jsstring \<Rightarrow> source_ref option \<Rightarrow>
   chat_split option \<Rightarrow> exn + computed" where
  "evaluateWhole B rules normalizedInput executedAtIso src split =
     (case runQc B \<lparr> req_input = normalizedInput, req_rules = rules,
                     req_executedAtIso = executedAtIso, req_aiSignals = None,
                     req_options = Some fixedOptions \<rparr> of
        Inl e \<Rightarrow> Inl e
      | Inr result \<Rightarrow>
          (let aggregatedRuleDocs = mapDocs B rules (ruleResults result) src in
           Inr \<lparr> cp_multiChatEnabled = False,
                 cp_aggregatedRuleDocs = aggregatedRuleDocs,
                 cp_ruleCounts = summarizeRuleStatuses aggregatedRuleDocs,
                 cp_runSummary =
                   \<lparr> cmb_overallOutcome = overallOutcome (summary result),
                     cmb_overallScore = overallScore (summary result),
                     cmb_failedRuleIds = failedRuleIds (summary result) \<rparr>,
                 cp_chatSummaries = None,
                 cp_perChatComputed = None,
                 cp_chatMeta =
                   (case split of
                      None \<Rightarrow> None
                    | Some sp \<Rightarrow>
                        (if truthy (warning sp)
                         then Some \<lparr> cm_enabled = False, cm_strategy = strategy sp,
                                     cm_chatCount = 1, cm_warning = warning sp \<rparr>
                         else None)),
                 cp_executedAt = executedAt (summary result) \<rparr>))"

text \<open>
  A text input is split; with two chats or more each chat is evaluated on its own,
  otherwise the input is evaluated as a whole.
\<close>

definition evaluateRun ::
  "builtins \<Rightarrow> rule list \<Rightarrow> normalized_input \<Rightarrow> jsstring \<Rightarrow> source_ref option \<Rightarrow>
   exn + computed" where
  "evaluateRun B rules normalizedInput executedAtIso src =
     (let split = (case normalizedInput of
                     TextInput t \<Rightarrow> Some (splitTranscriptIntoChats t)
                   | _ \<Rightarrow> None)
      in case split of
           None \<Rightarrow> evaluateWhole B rules normalizedInput executedAtIso src None
         | Some sp \<Rightarrow>
             (if length (chats sp) \<ge> 2
              then evaluateChats B rules executedAtIso src sp
              else evaluateWhole B rules normalizedInput executedAtIso src (Some sp)))"

subsection \<open>Persisting\<close>

text \<open>\<open>for (let i = 0; i < docs.length; i += chunkSize) docs.slice(i, i + chunkSize)\<close>.\<close>

function chunksOf :: "nat \<Rightarrow> 'a list \<Rightarrow> 'a list list" where
  "chunksOf n xs = (if n = 0 \<or> xs = [] then [] else take n xs # chunksOf n (drop n xs))"
  by pat_completeness auto
termination
  by (relation "measure (\<lambda>(n, xs). length xs)") auto

definition resultDocOf ::
  "invocation \<Rightarrow> run_doc \<Rightarrow> jsstring \<Rightarrow> jsstring \<Rightarrow> computed \<Rightarrow> result_doc" where
  "resultDocOf call run resultId fingerprint c =
     \<lparr> res_resultId = resultId, res_tenantId = inv_tenantId call, res_runId = run_runId run,
       res_engineVersion = QC_ENGINE_VERSION, res_executedAt = cp_executedAt c,
       res_summary =
         \<lparr> sm_overallOutcome = cmb_overallOutcome (cp_runSummary c),
           sm_overallScore = cmb_overallScore (cp_runSummary c),
           sm_failedRuleIds = cmb_failedRuleIds (cp_runSummary c),
           sm_ruleCounts = cp_ruleCounts c \<rparr>,
       res_integrity =
         \<lparr> int_templateVersionId =
             (if truthy (run_templateVersionId run) then run_templateVersionId run else None),
           int_templateId =
             (if truthy (run_templateVersionId run) then None else Some (run_templateId run)),
           int_templateVersion = run_templateVersion run,
           int_inputFingerprint = fingerprint \<rparr>,
       res_chat = cp_chatMeta c,
       res_writeState = None,
       res_expectedRuleCount = None \<rparr>"

text \<open>The writes of one chat in the two-phase path.\<close>

definition chatOps ::
  "jsstring \<Rightarrow> per_chat_computed list option \<Rightarrow> chat_result_summary \<Rightarrow> write_op list" where
  "chatOps resultId perChatComputed chat =
     (let found = (case perChatComputed of
                     None \<Rightarrow> None
                   | Some pcs \<Rightarrow> find (\<lambda>c. cs_index (pc_chat c) = crs_index chat) pcs);
          perDocs = (case found of None \<Rightarrow> [] | Some c \<Rightarrow> pc_ruleDocs c)
      in CreateChatResult resultId chat #
         map (ChatRuleChunk resultId (crs_index chat)) (chunksOf 400 perDocs))"

definition canSingleBatch :: "computed \<Rightarrow> bool" where
  "canSingleBatch c =
     (let totalWritesNeeded = 1 + length (cp_aggregatedRuleDocs c) + 1
      in \<not> cp_multiChatEnabled c \<and> totalWritesNeeded \<le> 450)"

definition persistOps ::
  "invocation \<Rightarrow> run_doc \<Rightarrow> jsstring \<Rightarrow> jsstring \<Rightarrow> computed \<Rightarrow> write_op list" where
  "persistOps call run resultId fingerprint c =
     (if canSingleBatch c then
        [SingleBatch (resultDocOf call run resultId fingerprint c) (cp_aggregatedRuleDocs c)
           (inv_runId call) fingerprint]
      else
        CreateResult ((resultDocOf call run resultId fingerprint c)
                        \<lparr> res_writeState := Some WRITING,
                          res_expectedRuleCount := Some (length (cp_aggregatedRuleDocs c)) \<rparr>) #
        map (RuleChunk resultId) (chunksOf 400 (cp_aggregatedRuleDocs c)) @
        (if cp_multiChatEnabled c then
           (case cp_chatSummaries c of
              None \<Rightarrow> []
            | Some chatSummaries \<Rightarrow>
                concat (map (chatOps resultId (cp_perChatComputed c)) chatSummaries))
         else []) @
        [FinalTx (inv_runId call) resultId fingerprint])"

subsection \<open>processQcRun\<close>

text \<open>The body of the \<open>try\<close> up to the persistence step: what to write, or what was thrown.\<close>

definition planRun ::
  "builtins \<Rightarrow> environment \<Rightarrow> invocation \<Rightarrow> run_doc \<Rightarrow> thrown + write_op list" where
  "planRun B E call run =
     (case env_fetchRules E run of
        Inl e \<Rightarrow> Inl e
      | Inr rules \<Rightarrow>
          (case validateUpload call run of
             Inl e \<Rightarrow> Inl e
           | Inr u \<Rightarrow>
               (case env_loadInput E run of
                  Inl e \<Rightarrow> Inl e
                | Inr (normalizedInput, fingerprint) \<Rightarrow>
                    (case evaluateRun B rules normalizedInput (env_executedAtIso E)
                            (sourceForEvidence run) of
                       Inl e \<Rightarrow> Inl (Thrown e)
                     | Inr c \<Rightarrow>
                         Inr (persistOps call run (env_resultId E) fingerprint c @
                              [WriteAudit
                                 \<lparr> au_tenantId = inv_tenantId call, au_actorUid = inv_actorUid call,
                                   au_actorRole = (if truthy (inv_actorRole call)
                                                   then inv_actorRole call else None),
                                   au_action = str ''QC_RUN_PROCESS'',
                                   au_resourceType = str ''qc_run'',
                                   au_resourceId = run_runId run,
                                   au_meta = [(str ''resultId'', env_resultId E)] \<rparr>])))))"

text \<open>The \<open>catch\<close> block: the public error it stores, and its two writes.\<close>

fun categoryName :: "error_category \<Rightarrow> jsstring" where
  "categoryName VALIDATION = str ''VALIDATION''"
| "categoryName INTEGRATION_ERROR = str ''INTEGRATION''"
| "categoryName EXECUTION = str ''EXECUTION''"
| "categoryName RULE_EVALUATION = str ''RULE_EVALUATION''"

fun toPublicError :: "thrown \<Rightarrow> public_error" where
  "toPublicError (ThrownPublic e) = e"
| "toPublicError _ =
     asPublicError EXECUTION (str ''EXECUTION_FAILED'') (str ''The run could not be completed.'')
       (Some (str ''Try again. If the issue persists, contact support with the run ID.'')) True"

definition failureOps :: "invocation \<Rightarrow> thrown \<Rightarrow> write_op list" where
  "failureOps call err =
     (let publicErr = toPublicError err
      in [MarkFailed (inv_runId call) publicErr,
          WriteAudit
            \<lparr> au_tenantId = inv_tenantId call, au_actorUid = inv_actorUid call,
              au_actorRole = (if truthy (inv_actorRole call) then inv_actorRole call else None),
              au_action = str ''QC_RUN_PROCESS'',
              au_resourceType = str ''qc_run'',
              au_resourceId = inv_runId call,
              au_meta = [(str ''status'', str ''FAILED''), (str ''code'', pe_code publicErr),
                         (str ''category'', categoryName (pe_category publicErr))] \<rparr>])"

datatype outcome = Resolved | Rejected thrown

text \<open>
  The \<open>try\<close> and \<open>catch\<close> of an invocation that has read the run as RUNNING: \<open>k\<close> is
  the number of its next store call, \<open>s\<close> the store, \<open>run\<close> the run document it read.
\<close>

definition runBody ::
  "builtins \<Rightarrow> environment \<Rightarrow> (nat \<Rightarrow> bool) \<Rightarrow> invocation \<Rightarrow> nat \<Rightarrow> store \<Rightarrow> run_doc \<Rightarrow>
   store list \<times> outcome" where
  "runBody B E F call k s run =
     (case (case planRun B E call run of
              Inl e \<Rightarrow> ([], s, Some e, k)
            | Inr ops \<Rightarrow> execOps F k ops s) of
        (tr2, s2, None, k2) \<Rightarrow> (tr2, Resolved)
      | (tr2, s2, Some e, k2) \<Rightarrow>
          (case execOps F k2 (failureOps call e) s2 of
             (tr3, s3, None, k3) \<Rightarrow> (tr2 @ tr3, Resolved)
           | (tr3, s3, Some e', k3) \<Rightarrow> (tr2 @ tr3, Rejected e')))"

text \<open>
  One invocation from the store \<open>s0\<close>: the states the store goes through, and whether the
  returned promise resolves or rejects.
\<close>

definition processQcRun ::
  "builtins \<Rightarrow> environment \<Rightarrow> (nat \<Rightarrow> bool) \<Rightarrow> invocation \<Rightarrow> store \<Rightarrow> store list \<times> outcome"
  where
  "processQcRun B E F call s0 =
     (case execOps F 0 [BeginTx (inv_runId call)] s0 of
        (tr1, s1, Some e, k1) \<Rightarrow> (tr1, Rejected e)
      | (tr1, s1, None, k1) \<Rightarrow>
          (case runs s1 (inv_runId call) of
             None \<Rightarrow> (tr1, Rejected (Thrown (TypeError (str ''run is undefined''))))
           | Some run \<Rightarrow>
               (if run_status run \<noteq> RUNNING then (tr1, Resolved)
                else (case runBody B E F call k1 s1 run of
                        (tr, out) \<Rightarrow> (tr1 @ tr, out)))))"

section \<open>Notions used to state the properties\<close>

subsection \<open>Engine\<close>

text \<open>The configuration check at the head of \<open>runQc\<close> lets the request through.\<close>

definition thresholdInRange :: "run_request \<Rightarrow> bool" where
  "thresholdInRange request =
     (\<not> num_lt (passScoreThresholdOf request) (Num 0) \<and>
      \<not> num_gt (passScoreThresholdOf request) (Num 1))"

text \<open>
  The kind each evaluator passes to \<open>assertKind\<close>; \<open>None\<close> for the evaluators that do not
  call it. \<open>readsText\<close> marks the evaluators that go through \<open>asTextFromInput\<close> instead.
\<close>

fun assertedKind :: "rule_params \<Rightarrow> input_kind option" where
  "assertedKind (NumericRangeParams fp mn mx imn imx) = Some KRecord"
| "assertedKind (RequiredFieldParams fp aes) = Some KRecord"
| "assertedKind (SlaTimeDifferenceParams sp ep mx) = Some KRecord"
| "assertedKind (ExcelRequiredColumnsParams cols cs) = Some KTable"
| "assertedKind (ExcelAllCapsParams col r) = Some KTable"
| "assertedKind (AudioDurationLimitParams mx) = Some KAudio"
| "assertedKind _ = None"

fun readsText :: "rule_params \<Rightarrow> bool" where
  "readsText (TextRegexParams fp pat fl mm) = True"
| "readsText (TextKeywordBlacklistParams fp kws cs) = True"
| "readsText (TextRequiredPhraseParams fp ph cs) = True"
| "readsText _ = False"

text \<open>The message of the \<open>QcExecutionError\<close> that \<open>assertKind\<close> throws.\<close>

definition kindMismatchMessage :: "rule \<Rightarrow> input_kind \<Rightarrow> input_kind \<Rightarrow> jsstring" where
  "kindMismatchMessage rule expected actual =
     str ''Rule '' @ ruleId rule @ str '' ('' @ ruleTypeName (ruleType rule) @
     str '') expects input kind '' @ [39] @ kindName expected @ [39] @
     str '', got '' @ [39] @ kindName actual @ [39] @ str ''.''"

text \<open>A result carries its rule's id and the score that goes with its outcome.\<close>

definition shaped :: "rule \<Rightarrow> rule_result \<Rightarrow> bool" where
  "shaped rule res =
     (rr_ruleId res = ruleId rule \<and>
      (case rr_outcome res of
         PASS \<Rightarrow> rr_score res = Num 1
       | SKIP \<Rightarrow> rr_score res = Num 1
       | FAIL \<Rightarrow> rr_score res = Num 0
       | ERROR \<Rightarrow> rr_score res = Num 0))"

subsection \<open>Segmentation\<close>

text \<open>
  What each strategy yields on the lines of a text: the segments between its start lines
  whose rebuilt text has at least 120 characters. \<open>chosenStrategy\<close> is the priority rule
  in the words of the specification: the first strategy, in the order header-anchored,
  separators, speaker blocks, that yields at least two such segments, else the single
  segment.
\<close>

definition headerSegments :: "jsstring list \<Rightarrow> (nat \<times> nat) list" where
  "headerSegments lines =
     filterNonTrivialSegments lines (computeSegmentsFromStarts lines (map fst (chatIdStarts lines)))"

definition separatorSegments :: "jsstring list \<Rightarrow> (nat \<times> nat) list" where
  "separatorSegments lines =
     filterNonTrivialSegments lines (computeSegmentsFromStarts lines (0 # sepStarts lines))"

definition speakerSegments :: "jsstring list \<Rightarrow> (nat \<times> nat) list" where
  "speakerSegments lines =
     filterNonTrivialSegments lines
       (computeSegmentsFromStarts lines (map fst (participantStarts lines)))"

definition chosenStrategy :: "jsstring list \<Rightarrow> chat_split_strategy" where
  "chosenStrategy lines =
     (if 2 \<le> length (headerSegments lines) then CHAT_ID
      else if 2 \<le> length (separatorSegments lines) then SEPARATORS
      else if 2 \<le> length (speakerSegments lines) then SPEAKER_BLOCKS
      else SINGLE)"

definition chosenSegments :: "jsstring list \<Rightarrow> (nat \<times> nat) list" where
  "chosenSegments lines =
     (if 2 \<le> length (headerSegments lines) then headerSegments lines
      else if 2 \<le> length (separatorSegments lines) then separatorSegments lines
      else speakerSegments lines)"

definition isHeaderLine :: "jsstring list \<Rightarrow> nat \<Rightarrow> bool" where
  "isHeaderLine lines i = (findChatIdHeader (lines ! i) \<noteq> None)"

subsection \<open>Orchestrator\<close>

text \<open>
  What a reader of the store sees: the run is SUCCEEDED; the run points to a result; a
  result is complete, that is, it exists, is not marked WRITING, and holds as many
  rule-result records as its summary counts and as its \<open>expectedRuleCount\<close>, when it has
  one, announces.
\<close>

definition runStatusOf :: "store \<Rightarrow> jsstring \<Rightarrow> run_status option" where
  "runStatusOf s runId = map_option run_status (runs s runId)"

definition succeeded :: "store \<Rightarrow> jsstring \<Rightarrow> bool" where
  "succeeded s runId = (runStatusOf s runId = Some SUCCEEDED)"

definition pointsTo :: "store \<Rightarrow> jsstring \<Rightarrow> jsstring \<Rightarrow> bool" where
  "pointsTo s runId rid =
     (case runs s runId of None \<Rightarrow> False | Some run \<Rightarrow> run_resultId run = Some rid)"

definition resultComplete :: "store \<Rightarrow> jsstring \<Rightarrow> bool" where
  "resultComplete s rid =
     (case results s rid of
        None \<Rightarrow> False
      | Some r \<Rightarrow>
          res_writeState r \<noteq> Some WRITING \<and>
          length (ruleResultsOf s rid) = rc_total (sm_ruleCounts (res_summary r)) \<and>
          (case res_expectedRuleCount r of
             None \<Rightarrow> True
           | Some n \<Rightarrow> length (ruleResultsOf s rid) = n))"

definition writeStateOf :: "store \<Rightarrow> jsstring \<Rightarrow> write_state option" where
  "writeStateOf s rid = (case results s rid of None \<Rightarrow> None | Some r \<Rightarrow> res_writeState r)"

definition expectedCountOf :: "store \<Rightarrow> jsstring \<Rightarrow> nat option" where
  "expectedCountOf s rid =
     (case results s rid of None \<Rightarrow> None | Some r \<Rightarrow> res_expectedRuleCount r)"

text \<open>The number of segments an input is evaluated in.\<close>

definition segmentCount :: "normalized_input \<Rightarrow> nat" where
  "segmentCount i =
     (case i of TextInput t \<Rightarrow> length (chats (splitTranscriptIntoChats t)) | _ \<Rightarrow> 1)"

text \<open>\<open>chain G s tr\<close>: every step of the history \<open>s, tr\<close> satisfies \<open>G\<close>.\<close>

fun chain :: "('a \<Rightarrow> 'a \<Rightarrow> bool) \<Rightarrow> 'a \<Rightarrow> 'a list \<Rightarrow> bool" where
  "chain G s [] = True"
| "chain G s (x # xs) = (G s x \<and> chain G x xs)"

text \<open>
  A step makes the run SUCCEEDED exactly when it makes the result complete: the two happen
  together or not at all.
\<close>

definition together :: "jsstring \<Rightarrow> jsstring \<Rightarrow> store \<Rightarrow> store \<Rightarrow> bool" where
  "together runId rid a b =
     ((\<not> succeeded a runId \<and> succeeded b runId) =
      (\<not> resultComplete a rid \<and> resultComplete b rid))"

text \<open>The phases of an invocation, as the proofs follow them.\<close>

definition pending :: "jsstring \<Rightarrow> jsstring \<Rightarrow> store \<Rightarrow> bool" where
  "pending runId rid s = (\<not> succeeded s runId \<and> \<not> resultComplete s rid)"

definition finished :: "jsstring \<Rightarrow> jsstring \<Rightarrow> store \<Rightarrow> bool" where
  "finished runId rid s =
     (resultComplete s rid \<and> (succeeded s runId \<longrightarrow> pointsTo s runId rid))"

definition goodStep :: "jsstring \<Rightarrow> jsstring \<Rightarrow> store \<Rightarrow> store \<Rightarrow> bool" where
  "goodStep runId rid a b =
     ((pending runId rid a \<and> pending runId rid b) \<or>
      (pending runId rid a \<and> finished runId rid b \<and> succeeded b runId) \<or>
      (finished runId rid a \<and> finished runId rid b \<and> (succeeded b runId \<longrightarrow> succeeded a runId)))"

definition untouched :: "jsstring \<Rightarrow> store \<Rightarrow> bool" where
  "untouched rid s = (results s rid = None \<and> ruleResultsOf s rid = [])"

definition writingPhase :: "jsstring \<Rightarrow> jsstring \<Rightarrow> nat \<Rightarrow> store \<Rightarrow> bool" where
  "writingPhase runId rid n s =
     (runStatusOf s runId = Some RUNNING \<and>
      (case results s rid of
         None \<Rightarrow> False
       | Some r \<Rightarrow>
           res_writeState r = Some WRITING \<and> res_expectedRuleCount r = Some n \<and>
           rc_total (sm_ruleCounts (res_summary r)) = n))"

text \<open>The writes that leave the run documents, the result documents and the rule results alone.\<close>

fun sideWrite :: "write_op \<Rightarrow> bool" where
  "sideWrite (CreateChatResult rid chat) = True"
| "sideWrite (ChatRuleChunk rid i ds) = True"
| "sideWrite (WriteAudit e) = True"
| "sideWrite _ = False"

definition isOk :: "'a + 'b \<Rightarrow> bool" where
  "isOk x = (case x of Inl e \<Rightarrow> False | Inr y \<Rightarrow> True)"

text \<open>The external reads deliver rules and input for the run as it reads once RUNNING.\<close>

definition loadsFor :: "environment \<Rightarrow> invocation \<Rightarrow> run_doc \<Rightarrow> bool" where
  "loadsFor E call run =
     (isOk (env_fetchRules E run) \<and> isOk (validateUpload call run) \<and>
      isOk (env_loadInput E run))"

text \<open>
  A host instance for concrete evaluations. It agrees with JavaScript on what the examples
  below feed it: exact arithmetic on finite numbers whose results are representable, ASCII
  case mapping, and patterns without metacharacters (a substring search).
\<close>

fun exactArith :: "(real \<Rightarrow> real \<Rightarrow> real) \<Rightarrow> jsnum \<Rightarrow> jsnum \<Rightarrow> jsnum" where
  "exactArith f (Num a) (Num b) = Num (f a b)"
| "exactArith f _ _ = NaN"

definition exampleHost :: builtins where
  "exampleHost =
     \<lparr> fadd = exactArith (+), fsub = exactArith (-), fmul = exactArith (*),
       fdiv = exactArith (/),
       regExpTest = (\<lambda>pat flags text. Inr (includesStr text pat)),
       toLowerCase = map asciiLower, toUpperCase = map asciiUpper,
       toNumber = (\<lambda>v. NaN), toStr = (\<lambda>v. []), numToStr = (\<lambda>n. []),
       dateParse = (\<lambda>s. NaN) \<rparr>"

subsection \<open>Example rules and requests\<close>

definition exampleTime :: jsstring where
  "exampleTime = str ''2024-01-01T00:00:00.000Z''"

definition orderIdRule :: rule where
  "orderIdRule =
     \<lparr> ruleId = str ''r-order'', version = 1, enabled = True, severity = MAJOR,
       weight = Num 1, name = str ''Order ID present'',
       params = TextRequiredPhraseParams None (str ''Order ID'') False \<rparr>"

definition refundRule :: rule where
  "refundRule =
     \<lparr> ruleId = str ''r-refund'', version = 1, enabled = True, severity = BLOCKER,
       weight = Num 1, name = str ''No refund talk'',
       params = TextKeywordBlacklistParams None [str ''refund''] False \<rparr>"

definition columnsRule :: rule where
  "columnsRule =
     \<lparr> ruleId = str ''r-cols'', version = 1, enabled = True, severity = MINOR,
       weight = Num 1, name = str ''Columns present'',
       params = ExcelRequiredColumnsParams [str ''id''] False \<rparr>"

definition mentionsRule :: rule where
  "mentionsRule =
     \<lparr> ruleId = str ''r-mentions'', version = 1, enabled = True, severity = INFO,
       weight = Num 1, name = str ''Mentions an order'',
       params = TextRegexParams None (str ''Order'') None True \<rparr>"

definition rangeRule :: rule where
  "rangeRule =
     \<lparr> ruleId = str ''r-range'', version = 1, enabled = True, severity = MAJOR,
       weight = Num 1, name = str ''Value in range'',
       params = NumericRangeParams [str ''value''] (Some (Num 0)) (Some (Num 10)) True False \<rparr>"

definition mkRequest ::
  "normalized_input \<Rightarrow> rule list \<Rightarrow> execution_options option \<Rightarrow> run_request" where
  "mkRequest i rs opts =
     \<lparr> req_input = i, req_rules = rs, req_executedAtIso = exampleTime,
       req_aiSignals = None, req_options = opts \<rparr>"

definition mkSummary :: "overall_outcome \<Rightarrow> jsnum \<Rightarrow> jsstring list \<Rightarrow> run_summary" where
  "mkSummary oc sc failed =
     \<lparr> engineVersion = QC_ENGINE_VERSION, executedAt = exampleTime, overallOutcome = oc,
       overallScore = sc, failedRuleIds = failed \<rparr>"

text \<open>A blocker rule that fails, under a pass threshold of 0 that the score meets.\<close>

definition blockerRequest :: run_request where
  "blockerRequest =
     mkRequest (TextInput (str ''I want a refund'')) [refundRule]
       (Some \<lparr> passScoreThreshold = Some (Num 0), blockerFailureForcesFail = None \<rparr>)"

definition refundEvidence :: evidence where
  "refundEvidence =
     mkEvidence (str ''TEXT_KEYWORD_BLACKLIST'') (str ''Blacklisted keywords detected'') None
       (Some [(str ''found'', JArray [JString (str ''refund'')])])"

definition blockerResult :: run_result where
  "blockerResult =
     \<lparr> summary = mkSummary OverallFAIL (Num 0) [str ''r-refund''],
       ruleResults = [fail refundRule [refundEvidence]] \<rparr>"

text \<open>Every rule disabled.\<close>

definition vacuityRequest :: run_request where
  "vacuityRequest =
     mkRequest (TextInput (str ''hello''))
       [orderIdRule\<lparr>enabled := False\<rparr>, refundRule\<lparr>enabled := False\<rparr>] None"

definition vacuityResult :: run_result where
  "vacuityResult =
     \<lparr> summary = mkSummary OverallPASS (Num 1) [],
       ruleResults = [skip (orderIdRule\<lparr>enabled := False\<rparr>) (str ''Rule disabled''),
                      skip (refundRule\<lparr>enabled := False\<rparr>) (str ''Rule disabled'')] \<rparr>"

text \<open>One request that produces all four outcomes.\<close>

definition shapeRequest :: run_request where
  "shapeRequest =
     mkRequest (TextInput (str ''Your Order ID is 55, no refund''))
       [orderIdRule, refundRule, columnsRule, mentionsRule, rangeRule\<lparr>enabled := False\<rparr>] None"

definition shapeResult :: run_result where
  "shapeResult =
     \<lparr> summary = mkSummary OverallFAIL (Num (1 / 2)) [str ''r-refund''],
       ruleResults =
         [pass orderIdRule
            [mkEvidence (str ''TEXT_REQUIRED_PHRASE'') (str ''Required phrase present'') None None],
          fail refundRule [refundEvidence],
          errorResult columnsRule (kindMismatchMessage columnsRule KTable KText) [],
          pass mentionsRule
            [mkEvidence (str ''TEXT_REGEX'') (str ''Regex matched'') None
               (Some [(str ''pattern'', JString (str ''Order'')), (str ''flags'', JString [])])],
          skip (rangeRule\<lparr>enabled := False\<rparr>) (str ''Rule disabled'')] \<rparr>"

text \<open>A table input met by a record rule, a text rule and a disabled audio-free table rule.\<close>

definition mismatchRequest :: run_request where
  "mismatchRequest =
     mkRequest (TableInput [str ''name''] []) [rangeRule, orderIdRule] None"

definition mismatchResult :: run_result where
  "mismatchResult =
     \<lparr> summary = mkSummary OverallFAIL (Num 0) [],
       ruleResults =
         [errorResult rangeRule (kindMismatchMessage rangeRule KRecord KTable) [],
          skip orderIdRule (str ''No text available for evaluation'')] \<rparr>"

definition tableContext :: execution_context where
  "tableContext =
     \<lparr> ctx_input = TableInput [str ''name''] [], ctx_aiSignals = None,
       ctx_executedAtIso = exampleTime \<rparr>"

definition textContext :: execution_context where
  "textContext =
     \<lparr> ctx_input = TextInput (str ''hello''), ctx_aiSignals = None,
       ctx_executedAtIso = exampleTime \<rparr>"

subsection \<open>Example segments\<close>

text \<open>
  Two segments over three rules: PASS and ERROR, FAIL and PASS, NOT_EVALUATED and PASS.
\<close>

definition mkDoc :: "nat \<Rightarrow> jsstring \<Rightarrow> rule_status \<Rightarrow> jsnum \<Rightarrow> rule_result_doc" where
  "mkDoc order rid status score =
     \<lparr> rd_order = order, rd_ruleId = rid, rd_ruleName = rid, rd_ruleType = TEXT_REGEX,
       rd_weight = Num 1, rd_severity = MAJOR, rd_status = status, rd_score = score,
       rd_reason = None, rd_evidence = [], rd_error = None \<rparr>"

definition mkChat :: "nat \<Rightarrow> chat_segment" where
  "mkChat i = \<lparr> cs_index = i, cs_title = str ''Chat '' @ natToString (i + 1), cs_chatId = None,
                cs_participants = None, cs_text = [] \<rparr>"

definition examplePerChat :: "(chat_segment \<times> rule_result_doc list) list" where
  "examplePerChat =
     [(mkChat 0, [mkDoc 0 (str ''a'') StatusPASS (Num 1), mkDoc 1 (str ''b'') StatusFAIL (Num 0),
                  mkDoc 2 (str ''c'') StatusNOT_EVALUATED (Num 1)]),
      (mkChat 1, [mkDoc 0 (str ''a'') StatusERROR (Num 0), mkDoc 1 (str ''b'') StatusPASS (Num 1),
                  mkDoc 2 (str ''c'') StatusPASS (Num 1)])]"

definition exampleCombined :: "rule_result_doc list" where
  "exampleCombined =
     [mkDoc 0 (str ''a'') StatusERROR (Num 0), mkDoc 1 (str ''b'') StatusFAIL (Num 0),
      mkDoc 2 (str ''c'') StatusPASS (Num 1)]"

subsection \<open>Example transcripts\<close>

text \<open>156 characters of filler, so that a segment holding it is long enough.\<close>

definition filler :: jsstring where
  "filler = concat (replicate 13 (str ''hello world ''))"

definition twoChatText :: jsstring where
  "twoChatText =
     str ''Chat ID: 1'' @ [10] @ filler @ [13, 10] @ str ''Chat ID: 2'' @ [10] @ filler @ [10]"

definition separatorText :: jsstring where
  "separatorText = filler @ [10] @ str ''-----'' @ [10] @ [10] @ filler"

definition speakerText :: jsstring where
  "speakerText =
     str ''Agent: Ann'' @ [10] @ str ''Customer: Bob'' @ [10] @ filler @ [10] @
     str ''Customer: Cid'' @ [10] @ str ''agent : Dee  '' @ [10] @ filler"

definition linesOf :: "jsstring \<Rightarrow> jsstring list" where
  "linesOf text = splitIntoLines (trim (normalizeNewlines text))"

subsection \<open>Example run\<close>

text \<open>
  A queued run over an inline transcript of two chats, with two rules; the same run over
  a one-line transcript; and the first of them as a second invocation finds it while the
  first invocation is at work.
\<close>

definition noFaults :: "nat \<Rightarrow> bool" where
  "noFaults k = False"

definition exampleRun :: run_doc where
  "exampleRun =
     \<lparr> run_runId = str ''run-1'', run_tenantId = str ''tenant-1'', run_status = QUEUED,
       run_templateId = str ''tpl-1'', run_templateVersionId = None, run_templateVersion = 1,
       run_inputSource = INLINE, run_upload = None, run_inputFingerprint = None,
       run_error = None, run_resultId = None \<rparr>"

definition exampleStore :: store where
  "exampleStore =
     \<lparr> runs = [str ''run-1'' \<mapsto> exampleRun], results = Map.empty, ruleResultDocs = [],
       chatResults = [], chatRuleResultDocs = [], auditLogs = [] \<rparr>"

definition runningStore :: store where
  "runningStore =
     exampleStore\<lparr> runs := [str ''run-1'' \<mapsto> exampleRun\<lparr> run_status := RUNNING \<rparr>] \<rparr>"

definition exampleCall :: invocation where
  "exampleCall =
     \<lparr> inv_tenantId = str ''tenant-1'', inv_runId = str ''run-1'', inv_actorUid = str ''user-1'',
       inv_actorRole = None \<rparr>"

definition exampleRules :: "rule list" where
  "exampleRules = [orderIdRule, refundRule]"

definition exampleEnv :: environment where
  "exampleEnv =
     \<lparr> env_fetchRules = (\<lambda>run. Inr exampleRules),
       env_loadInput = (\<lambda>run. Inr (TextInput twoChatText, str ''fp-1'')),
       env_executedAtIso = exampleTime, env_resultId = str ''res-1'' \<rparr>"

definition shortText :: jsstring where
  "shortText = str ''Your Order ID is 55''"

definition shortEnv :: environment where
  "shortEnv = exampleEnv\<lparr> env_loadInput := (\<lambda>run. Inr (TextInput shortText, str ''fp-2'')) \<rparr>"

text \<open>What a reader sees of a store: the run's status, the result's write state, the number
  of rule results.\<close>

definition observe :: "store \<Rightarrow> run_status option \<times> write_state option \<times> nat" where
  "observe s =
     (runStatusOf s (str ''run-1''), writeStateOf s (str ''res-1''),
      length (ruleResultsOf s (str ''res-1'')))"

subsection \<open>Example hosts in two time zones\<close>

text \<open>
  \<open>Date.parse\<close> reads a date-time that carries a UTC offset as that instant, and a
  date-time without an offset as local time, in the time zone of the process. The table
  below agrees with it, in a process whose zone is \<open>offsetMinutes\<close> east of UTC, on the two
  strings of the example: midnight of 1 January 2024, once with \<open>Z\<close> and once without.
\<close>

definition zoneDateParse :: "int \<Rightarrow> jsstring \<Rightarrow> jsnum" where
  "zoneDateParse offsetMinutes s =
     (if s = str ''2024-01-01T00:00:00Z'' then Num 1704067200000
      else if s = str ''2024-01-01T00:00:00''
      then Num (1704067200000 - 60000 * of_int offsetMinutes)
      else NaN)"

definition hostInZone :: "int \<Rightarrow> builtins" where
  "hostInZone offsetMinutes = exampleHost\<lparr> dateParse := zoneDateParse offsetMinutes \<rparr>"

text \<open>An answer is due within the hour; both timestamps are strings of a record.\<close>

definition slaRule :: rule where
  "slaRule =
     \<lparr> ruleId = str ''r-sla'', version = 1, enabled = True, severity = MAJOR,
       weight = Num 1, name = str ''Answered within the hour'',
       params = SlaTimeDifferenceParams [str ''openedAt''] [str ''answeredAt''] (Num 3600000) \<rparr>"

definition slaRequest :: run_request where
  "slaRequest =
     mkRequest
       (RecordInput [(str ''openedAt'', JString (str ''2024-01-01T00:00:00Z'')),
                     (str ''answeredAt'', JString (str ''2024-01-01T00:00:00''))])
       [slaRule] None"

definition slaResultUTC :: run_result where
  "slaResultUTC =
     \<lparr> summary = mkSummary OverallPASS (Num 1) [],
       ruleResults =
         [pass slaRule
            [mkEvidence (str ''SLA_TIME_DIFFERENCE'') (str ''SLA time difference within limit'')
               None (Some [(str ''diffMs'', JNumber (Num 0))])]] \<rparr>"

definition slaResultTokyo :: run_result where
  "slaResultTokyo =
     \<lparr> summary = mkSummary OverallFAIL (Num 0) [str ''r-sla''],
       ruleResults =
         [fail slaRule
            [mkEvidence (str ''SLA_TIME_DIFFERENCE'') (str ''SLA time difference exceeds limit'')
               None (Some [(str ''diffMs'', JNumber (Num 32400000)),
                           (str ''maxDifferenceMs'', JNumber (Num 3600000))])]] \<rparr>"

section \<open>Verified properties\<close>

subsection \<open>Engine: per-rule results\<close>

lemma resultBase_sel [simp]:
  "rr_ruleId (resultBase rule oc sc ev er) = ruleId rule"
  "rr_outcome (resultBase rule oc sc ev er) = oc"
  "rr_score (resultBase rule oc sc ev er) = sc"
  "rr_severity (resultBase rule oc sc ev er) = severity rule"
  "rr_weight (resultBase rule oc sc ev er) = weight rule"
  "rr_error (resultBase rule oc sc ev er) = er"
  by (simp_all add: resultBase_def)

lemma shaped_ctors [simp]:
  "shaped rule (pass rule ev)"
  "shaped rule (fail rule ev)"
  "shaped rule (skip rule reason)"
  "shaped rule (errorResult rule msg ev)"
  by (simp_all add: shaped_def pass_def fail_def skip_def errorResult_def)

lemma shaped_if [simp]: "shaped rule (if c then pass rule ev else fail rule ev)"
  by simp

lemma dispatch_shaped: "dispatchRule B ctx rule p = Inr res \<Longrightarrow> shaped rule res"
proof (cases p)
  case (TextRegexParams fp pat fl mm)
  then show "dispatchRule B ctx rule p = Inr res \<Longrightarrow> shaped rule res"
    by (auto simp: evalTextRegex_def Let_def split: option.splits sum.splits)
next
  case (TextKeywordBlacklistParams fp kws cs)
  then show "dispatchRule B ctx rule p = Inr res \<Longrightarrow> shaped rule res"
    by (auto simp: evalTextKeywordBlacklist_def Let_def split: option.splits if_splits)
next
  case (TextRequiredPhraseParams fp ph cs)
  then show "dispatchRule B ctx rule p = Inr res \<Longrightarrow> shaped rule res"
    by (auto simp: evalTextRequiredPhrase_def Let_def split: option.splits if_splits)
next
  case (NumericRangeParams fp mn mx imn imx)
  then show "dispatchRule B ctx rule p = Inr res \<Longrightarrow> shaped rule res"
    by (auto simp: evalNumericRange_def Let_def split: sum.splits if_splits)
next
  case (RequiredFieldParams fp aes)
  then show "dispatchRule B ctx rule p = Inr res \<Longrightarrow> shaped rule res"
    by (auto simp: evalRequiredField_def Let_def split: sum.splits if_splits)
next
  case (ExcelAllCapsParams col r)
  then show "dispatchRule B ctx rule p = Inr res \<Longrightarrow> shaped rule res"
    by (auto simp: evalExcelAllCaps_def Let_def split: sum.splits option.splits if_splits)
next
  case (ExcelRequiredColumnsParams cols cs)
  then show "dispatchRule B ctx rule p = Inr res \<Longrightarrow> shaped rule res"
    by (auto simp: evalExcelRequiredColumns_def Let_def split: sum.splits if_splits)
next
  case (AudioDurationLimitParams mx)
  then show "dispatchRule B ctx rule p = Inr res \<Longrightarrow> shaped rule res"
    by (auto simp: evalAudioDurationLimit_def Let_def split: sum.splits if_splits)
next
  case (SlaTimeDifferenceParams sp ep mx)
  then show "dispatchRule B ctx rule p = Inr res \<Longrightarrow> shaped rule res"
    by (auto simp: evalSlaTimeDifference_def Let_def split: sum.splits option.splits if_splits)
next
  case (ToneClassificationParams th fls)
  then show "dispatchRule B ctx rule p = Inr res \<Longrightarrow> shaped rule res"
    by (auto simp: evalToneClassification_def Let_def split: option.splits if_splits)
next
  case (ImpliedAbuseDetectionParams th)
  then show "dispatchRule B ctx rule p = Inr res \<Longrightarrow> shaped rule res"
    by (auto simp: evalImpliedAbuseDetection_def Let_def split: option.splits if_splits)
qed

lemma evaluateRule_shaped: "shaped rule (evaluateRule B ctx rule)"
  by (auto simp: evaluateRule_def dispatch_shaped split: sum.splits)

lemma evaluateRule_disabled:
  "\<not> enabled rule \<Longrightarrow> evaluateRule B ctx rule = skip rule (str ''Rule disabled'')"
  by (simp add: evaluateRule_def)

lemma assertKind_mismatch:
  "kind input \<noteq> k \<Longrightarrow>
   assertKind input k rule = Inl (QcExecutionError (kindMismatchMessage rule k (kind input)))"
  by (simp add: assertKind_def kindMismatchMessage_def)

lemma dispatch_mismatch:
  assumes "assertedKind p = Some k" and "kind (ctx_input ctx) \<noteq> k"
  shows "dispatchRule B ctx rule p =
           Inl (QcExecutionError (kindMismatchMessage rule k (kind (ctx_input ctx))))"
  using assms
  by (cases p)
     (simp_all add: assertKind_mismatch evalNumericRange_def evalRequiredField_def
        evalSlaTimeDifference_def evalExcelRequiredColumns_def evalExcelAllCaps_def
        evalAudioDurationLimit_def)

lemma evaluateRule_mismatch:
  assumes "enabled rule" and "assertedKind (params rule) = Some k"
    and "kind (ctx_input ctx) \<noteq> k"
  shows "evaluateRule B ctx rule =
           errorResult rule (kindMismatchMessage rule k (kind (ctx_input ctx))) []"
  using assms by (simp add: evaluateRule_def dispatch_mismatch)

lemma asText_no_text:
  "kind input = KTable \<or> kind input = KAudio \<Longrightarrow> asTextFromInput B input fp = None"
  by (cases input) simp_all

lemma dispatch_no_text:
  assumes "readsText p" and "kind (ctx_input ctx) = KTable \<or> kind (ctx_input ctx) = KAudio"
  shows "dispatchRule B ctx rule p = Inr (skip rule (str ''No text available for evaluation''))"
  using assms
  by (cases p)
     (simp_all add: asText_no_text evalTextRegex_def evalTextKeywordBlacklist_def
        evalTextRequiredPhrase_def)

lemma evaluateRule_no_text:
  assumes "enabled rule" and "readsText (params rule)"
    and "kind (ctx_input ctx) = KTable \<or> kind (ctx_input ctx) = KAudio"
  shows "evaluateRule B ctx rule = skip rule (str ''No text available for evaluation'')"
  using assms by (simp add: evaluateRule_def dispatch_no_text)

subsection \<open>Engine: runQc\<close>

lemma runQc_Inr_iff: "(\<exists>res. runQc B request = Inr res) = thresholdInRange request"
  by (auto simp: runQc_def thresholdInRange_def Let_def)

lemma runQc_threshold: "runQc B request = Inr res \<Longrightarrow> thresholdInRange request"
  using runQc_Inr_iff by blast

lemma runQc_results:
  assumes "runQc B request = Inr res"
  shows "ruleResults res = map (evaluateRule B (contextOf request)) (req_rules request)"
  using assms by (auto simp: runQc_def Let_def split: if_splits)

lemma runQc_outcome:
  assumes "runQc B request = Inr res"
  shows "overallOutcome (summary res) =
     (if (blockerFailureForcesFailOf request \<and>
          list_ex (\<lambda>r. rr_outcome r = FAIL \<and> rr_severity r = BLOCKER) (ruleResults res))
         \<or> num_lt (weightedScoreOf B (ruleResults res)) (passScoreThresholdOf request)
      then OverallFAIL else OverallPASS)"
  using assms by (auto simp: runQc_def Let_def split: if_splits)

lemma runQc_score:
  assumes "runQc B request = Inr res"
  shows "overallScore (summary res) =
           mathMax (Num 0) (mathMin (Num 1) (weightedScoreOf B (ruleResults res)))"
  using assms by (auto simp: runQc_def Let_def split: if_splits)

lemma runQc_echo:
  assumes "runQc B request = Inr res"
  shows "executedAt (summary res) = req_executedAtIso request \<and>
         engineVersion (summary res) = QC_ENGINE_VERSION"
  using assms by (auto simp: runQc_def Let_def split: if_splits)

lemma weightedScore_all_skip:
  assumes "\<forall>r \<in> set rrs. rr_outcome r = SKIP"
  shows "weightedScoreOf B rrs = Num 1"
proof -
  have "filter (\<lambda>r. rr_outcome r \<noteq> SKIP) rrs = []"
    using assms by (simp add: filter_empty_conv)
  then show ?thesis by (simp add: weightedScoreOf_def)
qed

lemma weightedScore_ignores_skip:
  "weightedScoreOf B (filter (\<lambda>r. rr_outcome r \<noteq> SKIP) rrs) = weightedScoreOf B rrs"
  by (simp add: weightedScoreOf_def)

lemma not_lt_one_threshold:
  assumes "thresholdInRange request"
  shows "\<not> num_lt (Num 1) (passScoreThresholdOf request)"
  using assms
  by (cases "passScoreThresholdOf request") (auto simp: thresholdInRange_def num_gt_def)

subsection \<open>Engine: evaluated examples\<close>

lemma blockerRequest_runs: "runQc exampleHost blockerRequest = Inr blockerResult"
  by code_simp

lemma vacuityRequest_runs: "runQc exampleHost vacuityRequest = Inr vacuityResult"
  by code_simp

lemma shapeRequest_runs: "runQc exampleHost shapeRequest = Inr shapeResult"
  by code_simp

lemma mismatchRequest_runs: "runQc exampleHost mismatchRequest = Inr mismatchResult"
  by code_simp

subsection \<open>Claims about the engine\<close>

text \<open>
  C4. With \<open>blockerFailureForcesFail\<close> enabled (its default), whenever \<open>runQc\<close> returns and
  some rule result has outcome FAIL and severity BLOCKER, the summary's overall outcome is
  FAIL, whatever the weighted score and the pass threshold are.
\<close>

theorem blocker_override:
  assumes "runQc B request = Inr res"
    and "blockerFailureForcesFailOf request"
    and "\<exists>r \<in> set (ruleResults res). rr_outcome r = FAIL \<and> rr_severity r = BLOCKER"
  shows "overallOutcome (summary res) = OverallFAIL"
  using assms by (simp add: runQc_outcome list_ex_iff)

text \<open>
  The blocker rule of \<open>blockerRequest\<close> fails; the weighted score 0 is not below the
  threshold 0, so only the override makes the run fail.
\<close>

theorem blocker_override_witness:
  "runQc exampleHost blockerRequest = Inr blockerResult \<and>
   blockerFailureForcesFailOf blockerRequest \<and>
   (\<exists>r \<in> set (ruleResults blockerResult). rr_outcome r = FAIL \<and> rr_severity r = BLOCKER) \<and>
   \<not> num_lt (weightedScoreOf exampleHost (ruleResults blockerResult))
        (passScoreThresholdOf blockerRequest) \<and>
   overallOutcome (summary blockerResult) = OverallFAIL"
proof -
  have h1: "runQc exampleHost blockerRequest = Inr blockerResult"
    by (rule blockerRequest_runs)
  have h2: "blockerFailureForcesFailOf blockerRequest"
    by (simp add: blockerFailureForcesFailOf_def blockerRequest_def mkRequest_def)
  have h3: "\<exists>r \<in> set (ruleResults blockerResult). rr_outcome r = FAIL \<and> rr_severity r = BLOCKER"
    by (simp add: blockerResult_def fail_def refundRule_def)
  have h4: "\<not> num_lt (weightedScoreOf exampleHost (ruleResults blockerResult))
              (passScoreThresholdOf blockerRequest)"
    by code_simp
  from blocker_override [OF h1 h2 h3] h1 h2 h3 h4 show ?thesis by blast
qed

text \<open>
  C5. Whenever \<open>runQc\<close> returns and every rule result has outcome SKIP, the summary has
  overall score 1 and overall outcome PASS; and in general the weighted score is computed
  from the results other than SKIP alone.
\<close>

theorem weight_vacuity:
  assumes "runQc B request = Inr res"
    and "\<forall>r \<in> set (ruleResults res). rr_outcome r = SKIP"
  shows "overallScore (summary res) = Num 1 \<and> overallOutcome (summary res) = OverallPASS \<and>
         weightedScoreOf B (ruleResults res) =
           weightedScoreOf B (filter (\<lambda>r. rr_outcome r \<noteq> SKIP) (ruleResults res))"
proof -
  have ws: "weightedScoreOf B (ruleResults res) = Num 1"
    using assms(2) by (rule weightedScore_all_skip)
  have nofail:
    "\<not> list_ex (\<lambda>r. rr_outcome r = FAIL \<and> rr_severity r = BLOCKER) (ruleResults res)"
    using assms(2) by (auto simp: list_ex_iff)
  have thr: "\<not> num_lt (Num 1) (passScoreThresholdOf request)"
    using runQc_threshold [OF assms(1)] by (rule not_lt_one_threshold)
  have "overallScore (summary res) = Num 1"
    by (simp add: runQc_score [OF assms(1)] ws mathMin_def mathMax_def)
  moreover have "overallOutcome (summary res) = OverallPASS"
    by (simp add: runQc_outcome [OF assms(1)] ws nofail thr)
  ultimately show ?thesis by (simp add: weightedScore_ignores_skip)
qed

text \<open>Both rules of \<open>vacuityRequest\<close> are disabled.\<close>

theorem weight_vacuity_witness:
  "runQc exampleHost vacuityRequest = Inr vacuityResult \<and>
   list_all (\<lambda>r. rr_outcome r = SKIP) (ruleResults vacuityResult) \<and>
   overallScore (summary vacuityResult) = Num 1 \<and>
   overallOutcome (summary vacuityResult) = OverallPASS"
proof -
  have h1: "runQc exampleHost vacuityRequest = Inr vacuityResult"
    by (rule vacuityRequest_runs)
  have h2: "\<forall>r \<in> set (ruleResults vacuityResult). rr_outcome r = SKIP"
    by (simp add: vacuityResult_def skip_def)
  from weight_vacuity [OF h1 h2] h1 h2 show ?thesis by (simp add: list_all_iff)
qed

text \<open>
  C10. Whenever \<open>runQc\<close> returns, there is exactly one rule result per input rule, in the
  order of the rule list and with the rule's id at each index, and every score is binary:
  1 for PASS and SKIP, 0 for FAIL and ERROR.
\<close>

theorem runQc_shape:
  assumes "runQc B request = Inr res"
  shows "length (ruleResults res) = length (req_rules request) \<and>
         (\<forall>i < length (req_rules request).
            rr_ruleId (ruleResults res ! i) = ruleId (req_rules request ! i)) \<and>
         (\<forall>r \<in> set (ruleResults res).
            ((rr_outcome r = PASS \<or> rr_outcome r = SKIP) \<longrightarrow> rr_score r = Num 1) \<and>
            ((rr_outcome r = FAIL \<or> rr_outcome r = ERROR) \<longrightarrow> rr_score r = Num 0))"
proof -
  have rs: "ruleResults res = map (evaluateRule B (contextOf request)) (req_rules request)"
    using assms by (rule runQc_results)
  have len: "length (ruleResults res) = length (req_rules request)"
    by (simp add: rs)
  have ids: "\<forall>i < length (req_rules request).
               rr_ruleId (ruleResults res ! i) = ruleId (req_rules request ! i)"
    using evaluateRule_shaped by (simp add: rs shaped_def)
  have sc: "\<forall>r \<in> set (ruleResults res).
            ((rr_outcome r = PASS \<or> rr_outcome r = SKIP) \<longrightarrow> rr_score r = Num 1) \<and>
            ((rr_outcome r = FAIL \<or> rr_outcome r = ERROR) \<longrightarrow> rr_score r = Num 0)"
  proof
    fix r assume "r \<in> set (ruleResults res)"
    then obtain rule where "r = evaluateRule B (contextOf request) rule"
      by (auto simp: rs)
    then have "shaped rule r" by (simp add: evaluateRule_shaped)
    then show "((rr_outcome r = PASS \<or> rr_outcome r = SKIP) \<longrightarrow> rr_score r = Num 1) \<and>
            ((rr_outcome r = FAIL \<or> rr_outcome r = ERROR) \<longrightarrow> rr_score r = Num 0)"
      by (cases "rr_outcome r") (simp_all add: shaped_def)
  qed
  from len ids sc show ?thesis by blast
qed

text \<open>\<open>shapeRequest\<close> has five rules and yields PASS, FAIL, ERROR, PASS, SKIP in that order.\<close>

theorem runQc_shape_witness:
  "runQc exampleHost shapeRequest = Inr shapeResult \<and>
   length (req_rules shapeRequest) = 5 \<and>
   length (ruleResults shapeResult) = 5 \<and>
   map rr_ruleId (ruleResults shapeResult) = map ruleId (req_rules shapeRequest) \<and>
   map rr_outcome (ruleResults shapeResult) = [PASS, FAIL, ERROR, PASS, SKIP] \<and>
   map rr_score (ruleResults shapeResult) = [Num 1, Num 0, Num 0, Num 1, Num 1]"
proof -
  have h1: "runQc exampleHost shapeRequest = Inr shapeResult"
    by (rule shapeRequest_runs)
  have h2: "map rr_outcome (ruleResults shapeResult) = [PASS, FAIL, ERROR, PASS, SKIP]"
    by (simp add: shapeResult_def pass_def fail_def skip_def errorResult_def)
  have h3: "map rr_score (ruleResults shapeResult) = [Num 1, Num 0, Num 0, Num 1, Num 1]"
    by (simp add: shapeResult_def pass_def fail_def skip_def errorResult_def)
  have h4: "length (req_rules shapeRequest) = 5"
    by (simp add: shapeRequest_def mkRequest_def)
  from runQc_shape [OF h1]
  have len: "length (ruleResults shapeResult) = length (req_rules shapeRequest)"
    and ids: "\<forall>i < length (req_rules shapeRequest).
                rr_ruleId (ruleResults shapeResult ! i) = ruleId (req_rules shapeRequest ! i)"
    by blast+
  have h5: "map rr_ruleId (ruleResults shapeResult) = map ruleId (req_rules shapeRequest)"
    by (rule nth_equalityI) (simp_all add: len ids)
  from h1 h2 h3 h4 h5 len show ?thesis by simp
qed

subsection \<open>Engine: what the result takes from the host\<close>

text \<open>
  The time of a run is the caller's (\<open>runQc_echo\<close>), and of the host's built-ins
  \<open>Date.parse\<close> is read by the SLA rule alone: a request without an SLA rule gets the same
  result whatever \<open>Date.parse\<close> returns.
\<close>

lemma asText_ignores_dateParse:
  "asTextFromInput (B\<lparr> dateParse := dp \<rparr>) i fp = asTextFromInput B i fp"
  by (cases i; cases fp) (simp_all split: jsval.splits)

lemma dispatch_ignores_dateParse:
  assumes "typeOfParams p \<noteq> SLA_TIME_DIFFERENCE"
  shows "dispatchRule (B\<lparr> dateParse := dp \<rparr>) ctx rule p = dispatchRule B ctx rule p"
  using assms
  by (cases p)
     (simp_all add: evalTextRegex_def evalTextKeywordBlacklist_def evalTextRequiredPhrase_def
        evalNumericRange_def evalExcelRequiredColumns_def evalExcelAllCaps_def
        asText_ignores_dateParse normalizeCase_def
        cong: option.case_cong sum.case_cong jsval.case_cong if_cong)

lemma evaluateRule_ignores_dateParse:
  assumes "ruleType rule \<noteq> SLA_TIME_DIFFERENCE"
  shows "evaluateRule (B\<lparr> dateParse := dp \<rparr>) ctx rule = evaluateRule B ctx rule"
  using assms by (simp add: evaluateRule_def ruleType_def dispatch_ignores_dateParse)

lemma weightedScore_ignores_dateParse:
  "weightedScoreOf (B\<lparr> dateParse := dp \<rparr>) rs = weightedScoreOf B rs"
  by (simp add: weightedScoreOf_def Let_def)

lemma runQc_ignores_dateParse:
  assumes "list_all (\<lambda>rule. ruleType rule \<noteq> SLA_TIME_DIFFERENCE) (req_rules request)"
  shows "runQc (B\<lparr> dateParse := dp \<rparr>) request = runQc B request"
proof -
  have m: "map (evaluateRule (B\<lparr> dateParse := dp \<rparr>) (contextOf request)) (req_rules request) =
        map (evaluateRule B (contextOf request)) (req_rules request)"
    using assms by (simp add: list_all_iff evaluateRule_ignores_dateParse)
  show ?thesis by (simp only: runQc_def Let_def weightedScore_ignores_dateParse m)
qed

lemma slaRequest_in_UTC: "runQc (hostInZone 0) slaRequest = Inr slaResultUTC"
  by code_simp

lemma slaRequest_in_Tokyo: "runQc (hostInZone 540) slaRequest = Inr slaResultTokyo"
  by code_simp

text \<open>
  C9. One request, in two hosts that differ in the time zone of the process and in nothing
  else. Its record holds the instant a ticket was opened, with \<open>Z\<close>, and the date-time it
  was answered, the same digits without an offset; its one rule allows an hour between
  them. In UTC \<open>runQc\<close> returns PASS with score 1 and a difference of 0 ms; nine hours
  east of UTC it returns FAIL with score 0 and a difference of 32400000 ms. The two results
  differ, so the result of \<open>runQc\<close> is not a function of its arguments alone.
\<close>

theorem time_zone_changes_verdict:
  "runQc (hostInZone 0) slaRequest = Inr slaResultUTC \<and>
   runQc (hostInZone 540) slaRequest = Inr slaResultTokyo \<and>
   overallOutcome (summary slaResultUTC) = OverallPASS \<and>
   overallOutcome (summary slaResultTokyo) = OverallFAIL \<and>
   runQc (hostInZone 0) slaRequest \<noteq> runQc (hostInZone 540) slaRequest"
proof -
  have "overallOutcome (summary slaResultUTC) = OverallPASS"
    by (simp add: slaResultUTC_def mkSummary_def)
  moreover have "overallOutcome (summary slaResultTokyo) = OverallFAIL"
    by (simp add: slaResultTokyo_def mkSummary_def)
  ultimately have "slaResultUTC \<noteq> slaResultTokyo" by auto
  with slaRequest_in_UTC slaRequest_in_Tokyo
    \<open>overallOutcome (summary slaResultUTC) = OverallPASS\<close>
    \<open>overallOutcome (summary slaResultTokyo) = OverallFAIL\<close>
  show ?thesis by simp
qed

text \<open>
  C2, as the code has it. Whenever the threshold check lets the request through, \<open>runQc\<close>
  returns one result per rule, each the evaluation of its rule, and for every enabled rule:
  if its evaluator asserts an input kind (record for NUMERIC_RANGE, REQUIRED_FIELD and
  SLA_TIME_DIFFERENCE, table for the two EXCEL rules, audio for AUDIO_DURATION_LIMIT) other
  than the kind of the input, the result is ERROR with score 0 and the error object
  \<open>RULE_EVALUATION_ERROR\<close> carrying the message of the caught exception; if it is one of the
  three text rules and the input is a table or audio, the result is SKIP with score 1.
\<close>

theorem kind_mismatch_is_rule_error:
  assumes "thresholdInRange request"
  shows "\<exists>res. runQc B request = Inr res \<and>
           length (ruleResults res) = length (req_rules request) \<and>
           (\<forall>i < length (req_rules request).
              ruleResults res ! i = evaluateRule B (contextOf request) (req_rules request ! i) \<and>
              (enabled (req_rules request ! i) \<longrightarrow>
                 (\<forall>k. assertedKind (params (req_rules request ! i)) = Some k \<and>
                       kind (req_input request) \<noteq> k \<longrightarrow>
                       rr_outcome (ruleResults res ! i) = ERROR \<and>
                       rr_score (ruleResults res ! i) = Num 0 \<and>
                       rr_error (ruleResults res ! i) =
                         Some \<lparr> err_code = str ''RULE_EVALUATION_ERROR'',
                                err_message = kindMismatchMessage (req_rules request ! i) k
                                                (kind (req_input request)) \<rparr>) \<and>
                 (readsText (params (req_rules request ! i)) \<and>
                  (kind (req_input request) = KTable \<or> kind (req_input request) = KAudio) \<longrightarrow>
                    rr_outcome (ruleResults res ! i) = SKIP \<and>
                    rr_score (ruleResults res ! i) = Num 1)))"
proof -
  from assms obtain res where r: "runQc B request = Inr res"
    using runQc_Inr_iff by blast
  have rs: "ruleResults res = map (evaluateRule B (contextOf request)) (req_rules request)"
    using r by (rule runQc_results)
  have len: "length (ruleResults res) = length (req_rules request)"
    by (simp add: rs)
  have inp: "ctx_input (contextOf request) = req_input request"
    by (simp add: contextOf_def)
  have each: "\<forall>i < length (req_rules request).
              ruleResults res ! i = evaluateRule B (contextOf request) (req_rules request ! i) \<and>
              (enabled (req_rules request ! i) \<longrightarrow>
                 (\<forall>k. assertedKind (params (req_rules request ! i)) = Some k \<and>
                       kind (req_input request) \<noteq> k \<longrightarrow>
                       rr_outcome (ruleResults res ! i) = ERROR \<and>
                       rr_score (ruleResults res ! i) = Num 0 \<and>
                       rr_error (ruleResults res ! i) =
                         Some \<lparr> err_code = str ''RULE_EVALUATION_ERROR'',
                                err_message = kindMismatchMessage (req_rules request ! i) k
                                                (kind (req_input request)) \<rparr>) \<and>
                 (readsText (params (req_rules request ! i)) \<and>
                  (kind (req_input request) = KTable \<or> kind (req_input request) = KAudio) \<longrightarrow>
                    rr_outcome (ruleResults res ! i) = SKIP \<and>
                    rr_score (ruleResults res ! i) = Num 1))"
  proof (intro allI impI)
    fix i assume i: "i < length (req_rules request)"
    let ?rule = "req_rules request ! i"
    have at: "ruleResults res ! i = evaluateRule B (contextOf request) ?rule"
      using i by (simp add: rs)
    have err: "enabled ?rule \<Longrightarrow> assertedKind (params ?rule) = Some k \<Longrightarrow>
               kind (req_input request) \<noteq> k \<Longrightarrow>
               rr_outcome (ruleResults res ! i) = ERROR \<and>
               rr_score (ruleResults res ! i) = Num 0 \<and>
               rr_error (ruleResults res ! i) =
                 Some \<lparr> err_code = str ''RULE_EVALUATION_ERROR'',
                        err_message = kindMismatchMessage ?rule k (kind (req_input request)) \<rparr>"
      for k
      using evaluateRule_mismatch [of ?rule k "contextOf request" B]
      by (simp add: at inp errorResult_def)
    have skp: "enabled ?rule \<Longrightarrow> readsText (params ?rule) \<Longrightarrow>
               kind (req_input request) = KTable \<or> kind (req_input request) = KAudio \<Longrightarrow>
               rr_outcome (ruleResults res ! i) = SKIP \<and> rr_score (ruleResults res ! i) = Num 1"
      using evaluateRule_no_text [of ?rule "contextOf request" B]
      by (simp add: at inp skip_def)
    from at err skp
    show "ruleResults res ! i = evaluateRule B (contextOf request) ?rule \<and>
          (enabled ?rule \<longrightarrow>
             (\<forall>k. assertedKind (params ?rule) = Some k \<and> kind (req_input request) \<noteq> k \<longrightarrow>
                   rr_outcome (ruleResults res ! i) = ERROR \<and>
                   rr_score (ruleResults res ! i) = Num 0 \<and>
                   rr_error (ruleResults res ! i) =
                     Some \<lparr> err_code = str ''RULE_EVALUATION_ERROR'',
                            err_message = kindMismatchMessage ?rule k (kind (req_input request)) \<rparr>) \<and>
             (readsText (params ?rule) \<and>
              (kind (req_input request) = KTable \<or> kind (req_input request) = KAudio) \<longrightarrow>
                rr_outcome (ruleResults res ! i) = SKIP \<and>
                rr_score (ruleResults res ! i) = Num 1))"
      by blast
  qed
  from r len each show ?thesis by blast
qed

text \<open>
  On a table input, the NUMERIC_RANGE rule at index 0 asserts a record and ends in ERROR;
  the TEXT_REQUIRED_PHRASE rule at index 1 finds no text and is skipped.
\<close>

theorem kind_mismatch_is_rule_error_witness:
  "thresholdInRange mismatchRequest \<and>
   runQc exampleHost mismatchRequest = Inr mismatchResult \<and>
   enabled (req_rules mismatchRequest ! 0) \<and>
   assertedKind (params (req_rules mismatchRequest ! 0)) = Some KRecord \<and>
   kind (req_input mismatchRequest) = KTable \<and>
   rr_outcome (ruleResults mismatchResult ! 0) = ERROR \<and>
   rr_score (ruleResults mismatchResult ! 0) = Num 0 \<and>
   rr_error (ruleResults mismatchResult ! 0) =
     Some \<lparr> err_code = str ''RULE_EVALUATION_ERROR'',
            err_message = kindMismatchMessage rangeRule KRecord KTable \<rparr> \<and>
   enabled (req_rules mismatchRequest ! 1) \<and>
   readsText (params (req_rules mismatchRequest ! 1)) \<and>
   rr_outcome (ruleResults mismatchResult ! 1) = SKIP \<and>
   rr_score (ruleResults mismatchResult ! 1) = Num 1"
proof -
  have t: "thresholdInRange mismatchRequest"
    by (simp add: thresholdInRange_def passScoreThresholdOf_def mismatchRequest_def
          mkRequest_def num_gt_def)
  have run: "runQc exampleHost mismatchRequest = Inr mismatchResult"
    by (rule mismatchRequest_runs)
  have rules: "req_rules mismatchRequest = [rangeRule, orderIdRule]"
    by (simp add: mismatchRequest_def mkRequest_def)
  have k: "kind (req_input mismatchRequest) = KTable"
    by (simp add: mismatchRequest_def mkRequest_def)
  have e0: "enabled (req_rules mismatchRequest ! 0) \<and>
            assertedKind (params (req_rules mismatchRequest ! 0)) = Some KRecord"
    by (simp add: rules rangeRule_def)
  have e1: "enabled (req_rules mismatchRequest ! 1) \<and>
            readsText (params (req_rules mismatchRequest ! 1))"
    by (simp add: rules orderIdRule_def)
  from kind_mismatch_is_rule_error [OF t, of exampleHost] run
  have all: "\<forall>i < length (req_rules mismatchRequest).
              (enabled (req_rules mismatchRequest ! i) \<longrightarrow>
                 (\<forall>k. assertedKind (params (req_rules mismatchRequest ! i)) = Some k \<and>
                       kind (req_input mismatchRequest) \<noteq> k \<longrightarrow>
                       rr_outcome (ruleResults mismatchResult ! i) = ERROR \<and>
                       rr_score (ruleResults mismatchResult ! i) = Num 0 \<and>
                       rr_error (ruleResults mismatchResult ! i) =
                         Some \<lparr> err_code = str ''RULE_EVALUATION_ERROR'',
                                err_message = kindMismatchMessage (req_rules mismatchRequest ! i) k
                                                (kind (req_input mismatchRequest)) \<rparr>) \<and>
                 (readsText (params (req_rules mismatchRequest ! i)) \<and>
                  (kind (req_input mismatchRequest) = KTable \<or>
                   kind (req_input mismatchRequest) = KAudio) \<longrightarrow>
                    rr_outcome (ruleResults mismatchResult ! i) = SKIP \<and>
                    rr_score (ruleResults mismatchResult ! i) = Num 1))"
    by auto
  have r0: "rr_outcome (ruleResults mismatchResult ! 0) = ERROR \<and>
            rr_score (ruleResults mismatchResult ! 0) = Num 0 \<and>
            rr_error (ruleResults mismatchResult ! 0) =
              Some \<lparr> err_code = str ''RULE_EVALUATION_ERROR'',
                     err_message = kindMismatchMessage rangeRule KRecord KTable \<rparr>"
    using all [rule_format, of 0] e0 k by (simp add: rules)
  have r1: "rr_outcome (ruleResults mismatchResult ! 1) = SKIP \<and>
            rr_score (ruleResults mismatchResult ! 1) = Num 1"
    using all [rule_format, of 1] e1 k by (simp add: rules)
  from t run e0 k r0 e1 r1 show ?thesis by blast
qed

text \<open>
  C2 as stated fails: an enabled text rule evaluated against a table input, and a disabled
  table rule evaluated against a text input, both end in SKIP with score 1, not in ERROR.
\<close>

theorem kind_mismatch_counterexample:
  "kind (ctx_input tableContext) = KTable \<and>
   ruleType orderIdRule = TEXT_REQUIRED_PHRASE \<and>
   rr_outcome (evaluateRule exampleHost tableContext orderIdRule) = SKIP \<and>
   rr_score (evaluateRule exampleHost tableContext orderIdRule) = Num 1 \<and>
   kind (ctx_input textContext) = KText \<and>
   ruleType (columnsRule\<lparr>enabled := False\<rparr>) = EXCEL_REQUIRED_COLUMNS \<and>
   rr_outcome (evaluateRule exampleHost textContext (columnsRule\<lparr>enabled := False\<rparr>)) = SKIP \<and>
   rr_score (evaluateRule exampleHost textContext (columnsRule\<lparr>enabled := False\<rparr>)) = Num 1"
  by (simp add: tableContext_def textContext_def orderIdRule_def columnsRule_def ruleType_def
        evaluateRule_def evalTextRequiredPhrase_def skip_def)

subsection \<open>Aggregator\<close>

lemma rankToStatus_statusRank [simp]: "rankToStatus (statusRank s) = s"
  by (cases s) (simp_all add: rankToStatus_def)

lemma foldl_max_ge: "a \<le> foldl max a (xs::nat list)"
  by (induction xs arbitrary: a) (auto intro: order_trans [OF max.cobounded1])

lemma foldl_max_upper: "x \<in> set xs \<Longrightarrow> x \<le> foldl max a (xs::nat list)"
proof (induction xs arbitrary: a)
  case Nil
  then show ?case by simp
next
  case (Cons y ys)
  show ?case
  proof (cases "x = y")
    case True
    have "y \<le> max a y" by simp
    also have "\<dots> \<le> foldl max (max a y) ys" by (rule foldl_max_ge)
    finally show ?thesis using True by simp
  next
    case False
    with Cons show ?thesis by simp
  qed
qed

lemma foldl_max_mem: "foldl max a (xs::nat list) = a \<or> foldl max a xs \<in> set xs"
proof (induction xs arbitrary: a)
  case Nil
  then show ?case by simp
next
  case (Cons y ys)
  from Cons [of "max a y"] show ?case by (auto simp: max_def split: if_splits)
qed

lemma worstRank_upper: "d \<in> set ds \<Longrightarrow> statusRank (rd_status d) \<le> worstRankOf ds"
  by (simp add: worstRankOf_def foldl_max_upper)

lemma worstRank_attained:
  assumes "ds \<noteq> []"
  shows "\<exists>d \<in> set ds. worstRankOf ds = statusRank (rd_status d)"
proof -
  let ?rs = "map (\<lambda>d. statusRank (rd_status d)) ds"
  from foldl_max_mem [of 0 ?rs] show ?thesis
  proof
    assume z: "foldl max 0 ?rs = 0"
    from assms obtain d where d: "d \<in> set ds" by (cases ds) auto
    then have "statusRank (rd_status d) \<le> worstRankOf ds" by (rule worstRank_upper)
    with z have "statusRank (rd_status d) = 0" by (simp add: worstRankOf_def)
    with z d show ?thesis by (auto simp: worstRankOf_def)
  next
    assume "foldl max 0 ?rs \<in> set ?rs"
    then show ?thesis by (auto simp: worstRankOf_def)
  qed
qed

lemma foldl_mathMin_Num: "foldl mathMin (Num a) (map Num rs) = Num (foldl min a rs)"
  by (induction rs arbitrary: a) (simp_all add: mathMin_def min_def)

lemma foldl_min_le: "foldl min a (xs::real list) \<le> a"
  by (induction xs arbitrary: a) (auto intro: order_trans [OF _ min.cobounded1])

lemma foldl_min_lower: "x \<in> set xs \<Longrightarrow> foldl min a (xs::real list) \<le> x"
proof (induction xs arbitrary: a)
  case Nil
  then show ?case by simp
next
  case (Cons y ys)
  show ?case
  proof (cases "x = y")
    case True
    have "foldl min (min a y) ys \<le> min a y" by (rule foldl_min_le)
    also have "\<dots> \<le> y" by simp
    finally show ?thesis using True by simp
  next
    case False
    with Cons show ?thesis by simp
  qed
qed

lemma foldl_min_mem: "foldl min a (xs::real list) = a \<or> foldl min a xs \<in> set xs"
proof (induction xs arbitrary: a)
  case Nil
  then show ?case by simp
next
  case (Cons y ys)
  from Cons [of "min a y"] show ?case by (auto simp: min_def split: if_splits)
qed

lemma finite_list_Num:
  assumes "\<forall>x \<in> set xs. isFinite x"
  shows "\<exists>rs. xs = map Num rs"
  using assms
proof (induction xs)
  case Nil
  then show ?case by simp
next
  case (Cons x xs)
  then obtain rs where "xs = map Num rs" by auto
  moreover from Cons.prems obtain r where "x = Num r" by (cases x) auto
  ultimately have "x # xs = map Num (r # rs)" by simp
  then show ?case by (rule exI)
qed

lemma mathMinList_finite:
  assumes "xs \<noteq> []" and "\<forall>x \<in> set xs. isFinite x"
  shows "mathMinList xs \<in> set xs \<and> (\<forall>x \<in> set xs. num_le (mathMinList xs) x)"
proof -
  from finite_list_Num [OF assms(2)] obtain rs where xs: "xs = map Num rs" by blast
  with assms(1) obtain r rs' where rs: "rs = r # rs'" by (cases rs) auto
  have m: "mathMinList xs = Num (foldl min r rs')"
    by (simp add: xs rs mathMinList_def mathMin_def foldl_mathMin_Num)
  have mem: "foldl min r rs' \<in> set rs"
    using foldl_min_mem [of r rs'] by (auto simp: rs)
  have low: "\<forall>y \<in> set rs. foldl min r rs' \<le> y"
    using foldl_min_le [of r rs'] foldl_min_lower [of _ rs' r] by (auto simp: rs)
  have "Num (foldl min r rs') \<in> set xs"
    using mem by (simp add: xs)
  moreover have "\<forall>x \<in> set xs. num_le (Num (foldl min r rs')) x"
    using low by (auto simp: xs)
  ultimately show ?thesis by (simp add: m)
qed

lemma combineFrom_total:
  assumes "\<forall>i \<in> set is. \<forall>x \<in> set perChat. i < length (snd x)"
  shows "combineFrom perChat is =
           Inr (map (\<lambda>i. combineEntries (map (\<lambda>x. (fst x, snd x ! i)) perChat)) is)"
  using assms by (induction "is") (simp_all add: entriesAt_def list_all_iff)

lemma combineEntries_status:
  "rd_status (combineEntries entries) = rankToStatus (worstRankOf (map snd entries))"
  by (simp add: combineEntries_def Let_def)

lemma combineEntries_score:
  "rd_score (combineEntries entries) =
     mathMinList (map (\<lambda>e. finiteOrZero (rd_score (snd e))) entries)"
  by (simp add: combineEntries_def Let_def)

lemma combined_status:
  assumes "ds \<noteq> []"
  shows "statusRank (rankToStatus (worstRankOf ds)) = worstRankOf ds"
proof -
  from worstRank_attained [OF assms]
  obtain d :: rule_result_doc where "worstRankOf ds = statusRank (rd_status d)"
    by auto
  then show ?thesis by simp
qed

lemma examplePerChat_combined: "combineAggregatedRuleDocs examplePerChat = Inr exampleCombined"
  by code_simp

text \<open>
  C6. For per-segment rule-result lists that all hold the same number \<open>n\<close> of records,
  with finite scores, \<open>combineAggregatedRuleDocs\<close> returns, for a non-empty list of
  segments, \<open>n\<close> combined records, and at each rule index the combined status has the
  greatest rank among the segments' statuses under NOT_EVALUATED (0), PASS (1), FAIL (2),
  ERROR (3): no segment's status ranks above it and it is the status of some segment. The
  combined score is the least of the segments' scores: below or equal to each, equal to one.
\<close>

theorem aggregation_worst_case:
  assumes "\<forall>x \<in> set perChat. length (snd x) = n"
    and "\<forall>x \<in> set perChat. \<forall>d \<in> set (snd x). isFinite (rd_score d)"
  shows "\<exists>out. combineAggregatedRuleDocs perChat = Inr out \<and>
           (perChat \<noteq> [] \<longrightarrow> length out = n) \<and>
           (\<forall>i < length out.
              statusRank (rd_status (out ! i)) =
                Max ((\<lambda>x. statusRank (rd_status (snd x ! i))) ` set perChat) \<and>
              (\<forall>x \<in> set perChat.
                 statusRank (rd_status (snd x ! i)) \<le> statusRank (rd_status (out ! i))) \<and>
              (\<exists>x \<in> set perChat. rd_status (out ! i) = rd_status (snd x ! i)) \<and>
              (\<forall>x \<in> set perChat. num_le (rd_score (out ! i)) (rd_score (snd x ! i))) \<and>
              (\<exists>x \<in> set perChat. rd_score (out ! i) = rd_score (snd x ! i)))"
proof (cases "perChat = []")
  case True
  then show ?thesis by (simp add: combineAggregatedRuleDocs_def)
next
  case False
  then have hd_in: "hd perChat \<in> set perChat" by simp
  with assms(1) have n: "length (snd (hd perChat)) = n" by blast
  let ?entries = "\<lambda>i. map (\<lambda>x. (fst x, snd x ! i)) perChat"
  let ?out = "map (\<lambda>i. combineEntries (?entries i)) [0 ..< n]"
  have "\<forall>i \<in> set [0 ..< n]. \<forall>x \<in> set perChat. i < length (snd x)"
    using assms(1) by simp
  then have "combineFrom perChat [0 ..< n] = Inr ?out"
    by (rule combineFrom_total)
  then have run: "combineAggregatedRuleDocs perChat = Inr ?out"
    using False by (simp add: combineAggregatedRuleDocs_def n)
  have each: "\<forall>i < length ?out.
              statusRank (rd_status (?out ! i)) =
                Max ((\<lambda>x. statusRank (rd_status (snd x ! i))) ` set perChat) \<and>
              (\<forall>x \<in> set perChat.
                 statusRank (rd_status (snd x ! i)) \<le> statusRank (rd_status (?out ! i))) \<and>
              (\<exists>x \<in> set perChat. rd_status (?out ! i) = rd_status (snd x ! i)) \<and>
              (\<forall>x \<in> set perChat. num_le (rd_score (?out ! i)) (rd_score (snd x ! i))) \<and>
              (\<exists>x \<in> set perChat. rd_score (?out ! i) = rd_score (snd x ! i))"
  proof (intro allI impI)
    fix i assume "i < length ?out"
    then have i: "i < n" by simp
    let ?ds = "map (\<lambda>x. snd x ! i) perChat"
    have ds: "map snd (?entries i) = ?ds" by (simp add: comp_def)
    have ne: "?ds \<noteq> []" using False by simp
    have st: "rd_status (?out ! i) = rankToStatus (worstRankOf ?ds)"
      using i by (simp add: combineEntries_status comp_def)
    have rank: "statusRank (rd_status (?out ! i)) = worstRankOf ?ds"
      by (simp add: st combined_status [OF ne])
    have a: "\<forall>x \<in> set perChat.
               statusRank (rd_status (snd x ! i)) \<le> statusRank (rd_status (?out ! i))"
    proof
      fix x assume "x \<in> set perChat"
      then have "snd x ! i \<in> set ?ds" by simp
      then have "statusRank (rd_status (snd x ! i)) \<le> worstRankOf ?ds"
        by (rule worstRank_upper)
      then show "statusRank (rd_status (snd x ! i)) \<le> statusRank (rd_status (?out ! i))"
        by (simp only: rank)
    qed
    have b: "\<exists>x \<in> set perChat. rd_status (?out ! i) = rd_status (snd x ! i)"
    proof -
      from worstRank_attained [OF ne]
      obtain d where d: "d \<in> set ?ds" and w: "worstRankOf ?ds = statusRank (rd_status d)"
        by blast
      from d obtain x where x: "x \<in> set perChat" and dx: "d = snd x ! i" by auto
      have "rd_status (?out ! i) = rd_status d" by (simp only: st w rankToStatus_statusRank)
      with x dx show ?thesis by blast
    qed
    let ?ss = "map (\<lambda>e. finiteOrZero (rd_score (snd e))) (?entries i)"
    have fin: "\<forall>x \<in> set perChat. isFinite (rd_score (snd x ! i))"
      using assms i by auto
    have fz: "\<forall>x \<in> set perChat. finiteOrZero (rd_score (snd x ! i)) = rd_score (snd x ! i)"
      using fin by (simp add: finiteOrZero_def)
    have sc: "rd_score (?out ! i) = mathMinList ?ss"
      using i by (simp add: combineEntries_score)
    have ssne: "?ss \<noteq> []" using False by simp
    have ssfin: "\<forall>v \<in> set ?ss. isFinite v" by (auto simp: finiteOrZero_def)
    from mathMinList_finite [OF ssne ssfin]
    have mem: "mathMinList ?ss \<in> set ?ss" and low: "\<forall>v \<in> set ?ss. num_le (mathMinList ?ss) v"
      by blast+
    have c: "\<forall>x \<in> set perChat. num_le (rd_score (?out ! i)) (rd_score (snd x ! i))"
    proof
      fix x assume x: "x \<in> set perChat"
      then have "finiteOrZero (rd_score (snd x ! i)) \<in> set ?ss" by force
      with low have "num_le (mathMinList ?ss) (finiteOrZero (rd_score (snd x ! i)))" by blast
      with fz x have "num_le (mathMinList ?ss) (rd_score (snd x ! i))" by simp
      then show "num_le (rd_score (?out ! i)) (rd_score (snd x ! i))" by (simp only: sc)
    qed
    have d: "\<exists>x \<in> set perChat. rd_score (?out ! i) = rd_score (snd x ! i)"
    proof -
      from mem obtain x where x: "x \<in> set perChat"
        and m: "mathMinList ?ss = finiteOrZero (rd_score (snd x ! i))" by auto
      from fz x m have "mathMinList ?ss = rd_score (snd x ! i)" by simp
      then have "rd_score (?out ! i) = rd_score (snd x ! i)" by (simp only: sc)
      with x show ?thesis by blast
    qed
    have mx: "statusRank (rd_status (?out ! i)) =
                Max ((\<lambda>x. statusRank (rd_status (snd x ! i))) ` set perChat)"
    proof (rule sym, rule Max_eqI)
      show "finite ((\<lambda>x. statusRank (rd_status (snd x ! i))) ` set perChat)" by simp
    next
      fix y assume "y \<in> (\<lambda>x. statusRank (rd_status (snd x ! i))) ` set perChat"
      with a show "y \<le> statusRank (rd_status (?out ! i))" by auto
    next
      from b obtain x where "x \<in> set perChat" and "rd_status (?out ! i) = rd_status (snd x ! i)"
        by blast
      then show "statusRank (rd_status (?out ! i)) \<in>
                   (\<lambda>x. statusRank (rd_status (snd x ! i))) ` set perChat"
        by (simp add: image_iff) metis
    qed
    from mx a b c d
    show "statusRank (rd_status (?out ! i)) =
                Max ((\<lambda>x. statusRank (rd_status (snd x ! i))) ` set perChat) \<and>
              (\<forall>x \<in> set perChat.
                 statusRank (rd_status (snd x ! i)) \<le> statusRank (rd_status (?out ! i))) \<and>
              (\<exists>x \<in> set perChat. rd_status (?out ! i) = rd_status (snd x ! i)) \<and>
              (\<forall>x \<in> set perChat. num_le (rd_score (?out ! i)) (rd_score (snd x ! i))) \<and>
              (\<exists>x \<in> set perChat. rd_score (?out ! i) = rd_score (snd x ! i))"
      by blast
  qed
  have len: "length ?out = n" by simp
  from run each len show ?thesis by blast
qed

text \<open>
  In \<open>examplePerChat\<close> the worst statuses per rule are ERROR, FAIL and PASS (PASS ranks
  above NOT_EVALUATED), and the least scores are 0, 0 and 1.
\<close>

theorem aggregation_worst_case_witness:
  "list_all (\<lambda>x. length (snd x) = 3) examplePerChat \<and>
   list_all (\<lambda>x. list_all (\<lambda>d. isFinite (rd_score d)) (snd x)) examplePerChat \<and>
   combineAggregatedRuleDocs examplePerChat = Inr exampleCombined \<and>
   length exampleCombined = 3 \<and>
   map rd_status exampleCombined = [StatusERROR, StatusFAIL, StatusPASS] \<and>
   map rd_score exampleCombined = [Num 0, Num 0, Num 1]"
proof -
  have h1: "\<forall>x \<in> set examplePerChat. length (snd x) = 3"
    by (simp add: examplePerChat_def)
  have h2: "\<forall>x \<in> set examplePerChat. \<forall>d \<in> set (snd x). isFinite (rd_score d)"
    by (simp add: examplePerChat_def mkDoc_def)
  have ne: "examplePerChat \<noteq> []"
    by (simp add: examplePerChat_def)
  from aggregation_worst_case [OF h1 h2] ne examplePerChat_combined
  have len: "length exampleCombined = 3" by auto
  have st: "map rd_status exampleCombined = [StatusERROR, StatusFAIL, StatusPASS]"
    by (simp add: exampleCombined_def mkDoc_def)
  have sc: "map rd_score exampleCombined = [Num 0, Num 0, Num 1]"
    by (simp add: exampleCombined_def mkDoc_def)
  from h1 h2 examplePerChat_combined len st sc show ?thesis
    by (simp add: list_all_iff)
qed

subsection \<open>Segmentation\<close>

lemma computeSegments_length:
  "length (computeSegmentsFromStarts lines starts) \<le> length starts"
proof -
  let ?sorted = "sort (remdups starts)"
  have "length (computeSegmentsFromStarts lines starts)
          \<le> length (zip ?sorted (tl ?sorted @ [length lines]))"
    unfolding computeSegmentsFromStarts_def Let_def by (rule length_filter_le)
  also have "\<dots> \<le> length ?sorted" by simp
  also have "\<dots> \<le> length starts" by (simp add: length_remdups_leq)
  finally show ?thesis .
qed

lemma filterNonTrivial_length:
  "length (filterNonTrivialSegments lines segs) \<le> length segs"
  by (simp add: filterNonTrivialSegments_def)

lemma filterNonTrivial_long:
  "seg \<in> set (filterNonTrivialSegments lines segs) \<Longrightarrow>
   120 \<le> length (rebuildFromLines lines (fst seg) (snd seg))"
  by (auto simp: filterNonTrivialSegments_def)

lemma headerSegments_le: "length (headerSegments lines) \<le> length (chatIdStarts lines)"
  using filterNonTrivial_length [of lines "computeSegmentsFromStarts lines (map fst (chatIdStarts lines))"]
        computeSegments_length [of lines "map fst (chatIdStarts lines)"]
  by (simp add: headerSegments_def)

lemma separatorSegments_le: "length (separatorSegments lines) \<le> Suc (length (sepStarts lines))"
  using filterNonTrivial_length [of lines "computeSegmentsFromStarts lines (0 # sepStarts lines)"]
        computeSegments_length [of lines "0 # sepStarts lines"]
  by (simp add: separatorSegments_def)

lemma speakerSegments_le: "length (speakerSegments lines) \<le> length (participantStarts lines)"
  using filterNonTrivial_length [of lines "computeSegmentsFromStarts lines (map fst (participantStarts lines))"]
        computeSegments_length [of lines "map fst (participantStarts lines)"]
  by (simp add: speakerSegments_def)

lemma chatIdAttempt_eq:
  "chatIdAttempt lines =
     (if 2 \<le> length (headerSegments lines) then
        Some \<lparr> strategy = CHAT_ID, warning = None,
               chats = map (\<lambda>(idx, seg). chatIdChat lines (chatIdStarts lines) idx seg)
                         (indexed (headerSegments lines)) \<rparr>
      else None)"
  using headerSegments_le [of lines]
  by (auto simp: chatIdAttempt_def Let_def headerSegments_def)

lemma separatorAttempt_eq:
  "separatorAttempt lines =
     (if 2 \<le> length (separatorSegments lines) then
        Some \<lparr> strategy = SEPARATORS, warning = None,
               chats = map (\<lambda>(idx, seg). separatorChat lines idx seg)
                         (indexed (separatorSegments lines)) \<rparr>
      else None)"
  using separatorSegments_le [of lines]
  by (auto simp: separatorAttempt_def Let_def separatorSegments_def)

lemma speakerAttempt_eq:
  "speakerAttempt lines =
     (if 2 \<le> length (speakerSegments lines) then
        Some \<lparr> strategy = SPEAKER_BLOCKS, warning = None,
               chats = map (\<lambda>(idx, seg). speakerChat lines (participantStarts lines) idx seg)
                         (indexed (speakerSegments lines)) \<rparr>
      else None)"
  using speakerSegments_le [of lines]
  by (auto simp: speakerAttempt_def Let_def speakerSegments_def)

lemma indexed_texts:
  assumes "\<And>idx seg. cs_text (f idx seg) = rebuildFromLines lines (fst seg) (snd seg)"
  shows "map (cs_text \<circ> (\<lambda>(idx, seg). f idx seg)) (indexed segs) =
         map (\<lambda>seg. rebuildFromLines lines (fst seg) (snd seg)) segs"
proof -
  have "map (cs_text \<circ> (\<lambda>(idx, seg). f idx seg)) (indexed segs) =
        map (\<lambda>p. rebuildFromLines lines (fst (snd p)) (snd (snd p))) (indexed segs)"
    by (simp add: assms case_prod_beta comp_def)
  also have "\<dots> = map (\<lambda>seg. rebuildFromLines lines (fst seg) (snd seg)) (map snd (indexed segs))"
    by (simp add: comp_def)
  also have "map snd (indexed segs) = segs"
    by (simp add: indexed_def)
  finally show ?thesis .
qed

lemma chat_texts [simp]:
  "cs_text (chatIdChat lines starts idx seg) = rebuildFromLines lines (fst seg) (snd seg)"
  "cs_text (separatorChat lines idx seg) = rebuildFromLines lines (fst seg) (snd seg)"
  "cs_text (speakerChat lines pstarts idx seg) = rebuildFromLines lines (fst seg) (snd seg)"
  by (simp_all add: chatIdChat_def separatorChat_def speakerChat_def Let_def)

lemma chat_text_lists [simp]:
  "map (cs_text \<circ> (\<lambda>(idx, seg). chatIdChat lines starts idx seg)) (indexed segs) =
     map (\<lambda>seg. rebuildFromLines lines (fst seg) (snd seg)) segs"
  "map (cs_text \<circ> (\<lambda>(idx, seg). separatorChat lines idx seg)) (indexed segs) =
     map (\<lambda>seg. rebuildFromLines lines (fst seg) (snd seg)) segs"
  "map (cs_text \<circ> (\<lambda>(idx, seg). speakerChat lines pstarts idx seg)) (indexed segs) =
     map (\<lambda>seg. rebuildFromLines lines (fst seg) (snd seg)) segs"
  by (rule indexed_texts, simp)+

lemma length_indexed [simp]: "length (indexed xs) = length xs"
  by (simp add: indexed_def)

lemma split_unfold:
  assumes "trim (normalizeNewlines text) \<noteq> []"
  shows "splitTranscriptIntoChats text =
     (let lines = splitIntoLines (trim (normalizeNewlines text)) in
      if 2 \<le> length (headerSegments lines) then
        \<lparr> strategy = CHAT_ID, warning = None,
          chats = map (\<lambda>(idx, seg). chatIdChat lines (chatIdStarts lines) idx seg)
                    (indexed (headerSegments lines)) \<rparr>
      else if 2 \<le> length (separatorSegments lines) then
        \<lparr> strategy = SEPARATORS, warning = None,
          chats = map (\<lambda>(idx, seg). separatorChat lines idx seg)
                    (indexed (separatorSegments lines)) \<rparr>
      else if 2 \<le> length (speakerSegments lines) then
        \<lparr> strategy = SPEAKER_BLOCKS, warning = None,
          chats = map (\<lambda>(idx, seg). speakerChat lines (participantStarts lines) idx seg)
                    (indexed (speakerSegments lines)) \<rparr>
      else
        \<lparr> strategy = SINGLE, warning = Some inconclusiveWarning,
          chats = [singleChat (trim (normalizeNewlines text))] \<rparr>)"
  using assms
  by (simp add: splitTranscriptIntoChats_def Let_def chatIdAttempt_eq separatorAttempt_eq
        speakerAttempt_eq)

lemma split_empty:
  assumes "trim (normalizeNewlines text) = []"
  shows "splitTranscriptIntoChats text =
           \<lparr> strategy = SINGLE, warning = Some (str ''No text found to split.''),
             chats = [singleChat []] \<rparr>"
  using assms by (simp add: splitTranscriptIntoChats_def Let_def)

lemma long_texts:
  "list_all (\<lambda>c. 120 \<le> length c)
     (map (\<lambda>seg. rebuildFromLines lines (fst seg) (snd seg)) (filterNonTrivialSegments lines segs))"
  by (auto simp: list_all_iff filterNonTrivialSegments_def)

lemma chosen_long:
  "list_all (\<lambda>c. 120 \<le> length c)
     (map (\<lambda>seg. rebuildFromLines lines (fst seg) (snd seg)) (chosenSegments lines))"
  by (simp add: chosenSegments_def headerSegments_def separatorSegments_def speakerSegments_def
        long_texts)

lemma list_all_texts:
  "list_all (\<lambda>c. 120 \<le> length (cs_text c)) cs = list_all (\<lambda>t. 120 \<le> length t) (map cs_text cs)"
  by (simp add: list_all_iff)

lemma no_header_in_empty: "chatIdStarts (splitIntoLines []) = []"
  by (simp add: splitIntoLines_def normalizeNewlines_def chatIdStarts_def List.map_filter_def
        findChatIdHeader_def headerKeyword_def str_def)

lemma chatIdStarts_fst:
  "map fst (chatIdStarts lines) = filter (isHeaderLine lines) [0 ..< length lines]"
proof -
  let ?f = "\<lambda>i. case findChatIdHeader (lines ! i) of None \<Rightarrow> None | Some cid \<Rightarrow> Some (i, cid)"
  have p: "(\<lambda>i. ?f i \<noteq> None) = isHeaderLine lines"
    by (rule ext) (simp add: isHeaderLine_def split: option.splits)
  have "map fst (chatIdStarts lines) =
          map (fst \<circ> (the \<circ> ?f)) (filter (\<lambda>i. ?f i \<noteq> None) [0 ..< length lines])"
    unfolding chatIdStarts_def List.map_filter_def by simp
  also have "\<dots> = map (\<lambda>i. i) (filter (\<lambda>i. ?f i \<noteq> None) [0 ..< length lines])"
    by (rule map_cong) (auto split: option.splits)
  also have "\<dots> = filter (isHeaderLine lines) [0 ..< length lines]"
    by (simp only: p map_ident)
  finally show ?thesis .
qed

lemma two_headers_order:
  assumes "chatIdStarts lines = [(a, ida), (b, idb)]"
  shows "a < b \<and> b < length lines"
proof -
  let ?xs = "filter (isHeaderLine lines) [0 ..< length lines]"
  have eq: "?xs = [a, b]"
    using chatIdStarts_fst [of lines] assms by simp
  have "sorted_wrt (<) ?xs" by (rule sorted_wrt_filter) simp
  then have "a < b" by (simp add: eq)
  moreover have "b \<in> set ?xs" by (simp add: eq)
  then have "b < length lines" by simp
  ultimately show ?thesis by simp
qed

lemma two_headers_segments:
  assumes "chatIdStarts lines = [(a, ida), (b, idb)]"
    and "120 \<le> length (rebuildFromLines lines a b)"
    and "120 \<le> length (rebuildFromLines lines b (length lines))"
  shows "headerSegments lines = [(a, b), (b, length lines)]"
proof -
  from two_headers_order [OF assms(1)] have ab: "a < b" and bn: "b < length lines" by simp_all
  have "sort (remdups [a, b]) = [a, b]" using ab by simp
  then have "computeSegmentsFromStarts lines [a, b] = [(a, b), (b, length lines)]"
    using ab bn by (simp add: computeSegmentsFromStarts_def)
  then show ?thesis
    using assms by (simp add: headerSegments_def filterNonTrivialSegments_def)
qed

text \<open>
  C7. Let \<open>lines\<close> be the lines of the trimmed, newline-normalised text. For a text that
  is not blank the strategy returned is the first, in the order header-anchored, separators,
  speaker blocks, that yields at least two segments of at least 120 rebuilt characters, and
  the single-segment fallback when none does. A strategy other than the fallback returns at
  least two chats, no warning, and exactly the rebuilt texts of its segments, each of at
  least 120 characters. The fallback returns one chat holding the whole trimmed text,
  together with a warning; a blank text falls back as well. In particular, when exactly two
  lines are chat-id headers and both segments rebuild to at least 120 characters, the result
  is header-anchored with exactly two chats. The function has no throwing path.
\<close>

theorem segmentation_priority:
  assumes "normalized = trim (normalizeNewlines text)"
    and "lines = splitIntoLines normalized"
    and "r = splitTranscriptIntoChats text"
  shows "(normalized \<noteq> [] \<longrightarrow> strategy r = chosenStrategy lines) \<and>
         (normalized = [] \<longrightarrow> strategy r = SINGLE) \<and>
         (strategy r \<noteq> SINGLE \<longrightarrow>
            2 \<le> length (chats r) \<and> warning r = None \<and>
            map cs_text (chats r) =
              map (\<lambda>seg. rebuildFromLines lines (fst seg) (snd seg)) (chosenSegments lines) \<and>
            list_all (\<lambda>c. 120 \<le> length (cs_text c)) (chats r)) \<and>
         (strategy r = SINGLE \<longrightarrow> chats r = [singleChat normalized] \<and> warning r \<noteq> None) \<and>
         (\<forall>a b ida idb.
            chatIdStarts lines = [(a, ida), (b, idb)] \<and>
            120 \<le> length (rebuildFromLines lines a b) \<and>
            120 \<le> length (rebuildFromLines lines b (length lines)) \<longrightarrow>
              strategy r = CHAT_ID \<and> length (chats r) = 2 \<and>
              map cs_text (chats r) =
                [rebuildFromLines lines a b, rebuildFromLines lines b (length lines)])"
proof (cases "normalized = []")
  case True
  have r: "r = \<lparr> strategy = SINGLE, warning = Some (str ''No text found to split.''),
                 chats = [singleChat []] \<rparr>"
    using True assms by (simp add: split_empty)
  have "chatIdStarts lines = []"
    using True assms(2) by (simp add: no_header_in_empty)
  then show ?thesis using True by (simp add: r)
next
  case False
  have u: "r =
     (if 2 \<le> length (headerSegments lines) then
        \<lparr> strategy = CHAT_ID, warning = None,
          chats = map (\<lambda>(idx, seg). chatIdChat lines (chatIdStarts lines) idx seg)
                    (indexed (headerSegments lines)) \<rparr>
      else if 2 \<le> length (separatorSegments lines) then
        \<lparr> strategy = SEPARATORS, warning = None,
          chats = map (\<lambda>(idx, seg). separatorChat lines idx seg)
                    (indexed (separatorSegments lines)) \<rparr>
      else if 2 \<le> length (speakerSegments lines) then
        \<lparr> strategy = SPEAKER_BLOCKS, warning = None,
          chats = map (\<lambda>(idx, seg). speakerChat lines (participantStarts lines) idx seg)
                    (indexed (speakerSegments lines)) \<rparr>
      else
        \<lparr> strategy = SINGLE, warning = Some inconclusiveWarning,
          chats = [singleChat normalized] \<rparr>)"
    using False assms split_unfold [of "text"] by (simp add: Let_def)
  have s: "strategy r = chosenStrategy lines"
    by (simp add: u chosenStrategy_def)
  have single: "strategy r = SINGLE \<longrightarrow> chats r = [singleChat normalized] \<and> warning r \<noteq> None"
    by (simp add: u)
  have texts: "strategy r \<noteq> SINGLE \<longrightarrow>
            2 \<le> length (chats r) \<and> warning r = None \<and>
            map cs_text (chats r) =
              map (\<lambda>seg. rebuildFromLines lines (fst seg) (snd seg)) (chosenSegments lines)"
    by (simp add: u chosenSegments_def)
  have long: "strategy r \<noteq> SINGLE \<longrightarrow> list_all (\<lambda>c. 120 \<le> length (cs_text c)) (chats r)"
    using texts chosen_long [of lines] by (simp only: list_all_texts) simp
  have scen: "\<forall>a b ida idb.
            chatIdStarts lines = [(a, ida), (b, idb)] \<and>
            120 \<le> length (rebuildFromLines lines a b) \<and>
            120 \<le> length (rebuildFromLines lines b (length lines)) \<longrightarrow>
              strategy r = CHAT_ID \<and> length (chats r) = 2 \<and>
              map cs_text (chats r) =
                [rebuildFromLines lines a b, rebuildFromLines lines b (length lines)]"
  proof (intro allI impI)
    fix a b ida idb
    assume h: "chatIdStarts lines = [(a, ida), (b, idb)] \<and>
            120 \<le> length (rebuildFromLines lines a b) \<and>
            120 \<le> length (rebuildFromLines lines b (length lines))"
    then have hs: "headerSegments lines = [(a, b), (b, length lines)]"
      using two_headers_segments by blast
    then have two: "2 \<le> length (headerSegments lines)" by simp
    have st: "strategy r = CHAT_ID" using two by (simp add: u)
    have "map cs_text (chats r) =
            map (\<lambda>seg. rebuildFromLines lines (fst seg) (snd seg)) (headerSegments lines)"
      using two by (simp add: u)
    then have tx: "map cs_text (chats r) =
                     [rebuildFromLines lines a b, rebuildFromLines lines b (length lines)]"
      by (simp add: hs)
    from tx have "length (map cs_text (chats r)) = 2" by simp
    then have "length (chats r) = 2" by simp
    with st tx show "strategy r = CHAT_ID \<and> length (chats r) = 2 \<and>
              map cs_text (chats r) =
                [rebuildFromLines lines a b, rebuildFromLines lines b (length lines)]"
      by blast
  qed
  from False s single texts long scen show ?thesis by blast
qed

text \<open>
  \<open>twoChatText\<close> has the headers \<open>Chat ID: 1\<close> and \<open>Chat ID: 2\<close> on lines 0 and 2,
  each followed by a line of filler; the other texts exercise the separators, the speaker
  blocks and the two fallbacks.
\<close>

theorem segmentation_priority_witness:
  "chatIdStarts (linesOf twoChatText) = [(0, str ''1''), (2, str ''2'')] \<and>
   120 \<le> length (rebuildFromLines (linesOf twoChatText) 0 2) \<and>
   120 \<le> length (rebuildFromLines (linesOf twoChatText) 2 (length (linesOf twoChatText))) \<and>
   strategy (splitTranscriptIntoChats twoChatText) = CHAT_ID \<and>
   length (chats (splitTranscriptIntoChats twoChatText)) = 2 \<and>
   map cs_chatId (chats (splitTranscriptIntoChats twoChatText)) = [Some (str ''1''), Some (str ''2'')] \<and>
   strategy (splitTranscriptIntoChats separatorText) = SEPARATORS \<and>
   length (chats (splitTranscriptIntoChats separatorText)) = 2 \<and>
   strategy (splitTranscriptIntoChats speakerText) = SPEAKER_BLOCKS \<and>
   length (chats (splitTranscriptIntoChats speakerText)) = 2 \<and>
   splitTranscriptIntoChats (str ''hello'') =
     \<lparr> strategy = SINGLE, warning = Some inconclusiveWarning,
       chats = [singleChat (str ''hello'')] \<rparr> \<and>
   splitTranscriptIntoChats [32, 10] =
     \<lparr> strategy = SINGLE, warning = Some (str ''No text found to split.''),
       chats = [singleChat []] \<rparr>"
proof -
  have h1: "chatIdStarts (linesOf twoChatText) = [(0, str ''1''), (2, str ''2'')]"
    by code_simp
  have h2: "120 \<le> length (rebuildFromLines (linesOf twoChatText) 0 2)"
    by code_simp
  have h3: "120 \<le> length (rebuildFromLines (linesOf twoChatText) 2
                          (length (linesOf twoChatText)))"
    by code_simp
  have l: "linesOf twoChatText = splitIntoLines (trim (normalizeNewlines twoChatText))"
    by (simp add: linesOf_def)
  from segmentation_priority [OF refl l refl]
  have scen: "\<forall>a b ida idb.
            chatIdStarts (linesOf twoChatText) = [(a, ida), (b, idb)] \<and>
            120 \<le> length (rebuildFromLines (linesOf twoChatText) a b) \<and>
            120 \<le> length (rebuildFromLines (linesOf twoChatText) b
                             (length (linesOf twoChatText))) \<longrightarrow>
              strategy (splitTranscriptIntoChats twoChatText) = CHAT_ID \<and>
              length (chats (splitTranscriptIntoChats twoChatText)) = 2 \<and>
              map cs_text (chats (splitTranscriptIntoChats twoChatText)) =
                [rebuildFromLines (linesOf twoChatText) a b,
                 rebuildFromLines (linesOf twoChatText) b (length (linesOf twoChatText))]"
    by blast
  from scen h1 h2 h3
  have c1: "strategy (splitTranscriptIntoChats twoChatText) = CHAT_ID \<and>
            length (chats (splitTranscriptIntoChats twoChatText)) = 2"
    by blast
  have c2: "map cs_chatId (chats (splitTranscriptIntoChats twoChatText)) =
              [Some (str ''1''), Some (str ''2'')]"
    by code_simp
  have c3: "strategy (splitTranscriptIntoChats separatorText) = SEPARATORS \<and>
            length (chats (splitTranscriptIntoChats separatorText)) = 2"
    by code_simp
  have c4: "strategy (splitTranscriptIntoChats speakerText) = SPEAKER_BLOCKS \<and>
            length (chats (splitTranscriptIntoChats speakerText)) = 2"
    by code_simp
  have c5: "splitTranscriptIntoChats (str ''hello'') =
     \<lparr> strategy = SINGLE, warning = Some inconclusiveWarning,
       chats = [singleChat (str ''hello'')] \<rparr>"
    by code_simp
  have c6: "splitTranscriptIntoChats [32, 10] =
     \<lparr> strategy = SINGLE, warning = Some (str ''No text found to split.''),
       chats = [singleChat []] \<rparr>"
    by code_simp
  from h1 h2 h3 c1 c2 c3 c4 c5 c6 show ?thesis by simp
qed

subsection \<open>Orchestrator: histories of writes\<close>

lemma exec_last: "execOps F k ops s = (tr, sf, th, k') \<Longrightarrow> sf = last (s # tr)"
proof (induction ops arbitrary: k s tr sf th k')
  case Nil
  then show ?case by simp
next
  case (Cons w ws)
  show ?case
  proof (cases "F k")
    case True
    with Cons.prems show ?thesis by simp
  next
    case nf: False
    show ?thesis
    proof (cases "applyOp w s")
      case (Inl e)
      with nf Cons.prems show ?thesis by simp
    next
      case (Inr s')
      obtain tr' sf' th' k'' where r: "execOps F (Suc k) ws s' = (tr', sf', th', k'')"
        by (cases "execOps F (Suc k) ws s'") auto
      from Cons.IH [OF r] have "sf' = last (s' # tr')" .
      with nf Inr r Cons.prems show ?thesis by auto
    qed
  qed
qed

lemma exec_append:
  "execOps F k (xs @ ys) s =
     (case execOps F k xs s of
        (t1, s1, Some e, k1) \<Rightarrow> (t1, s1, Some e, k1)
      | (t1, s1, None, k1) \<Rightarrow>
          (case execOps F k1 ys s1 of (t2, s2, th2, k2) \<Rightarrow> (t1 @ t2, s2, th2, k2)))"
proof (induction xs arbitrary: k s)
  case Nil
  then show ?case by (simp split: prod.splits)
next
  case (Cons w ws)
  show ?case
  proof (cases "F k")
    case True
    then show ?thesis by simp
  next
    case nf: False
    show ?thesis
    proof (cases "applyOp w s")
      case (Inl e)
      with nf show ?thesis by simp
    next
      case (Inr s')
      with nf Cons.IH [of "Suc k" s'] show ?thesis
        by (simp split: prod.splits option.splits)
    qed
  qed
qed

lemma chain_append: "chain G s (t1 @ t2) = (chain G s t1 \<and> chain G (last (s # t1)) t2)"
  by (induction t1 arbitrary: s) auto

lemma exec_chain:
  assumes "I s"
    and "\<And>w a b. w \<in> set ops \<Longrightarrow> I a \<Longrightarrow> applyOp w a = Inr b \<Longrightarrow> G a b \<and> I b"
    and "execOps F k ops s = (tr, sf, th, k')"
  shows "chain G s tr \<and> I sf"
  using assms
proof (induction ops arbitrary: k s tr sf th k')
  case Nil
  then show ?case by simp
next
  case (Cons w ws)
  show ?case
  proof (cases "F k")
    case True
    with Cons.prems show ?thesis by simp
  next
    case nf: False
    show ?thesis
    proof (cases "applyOp w s")
      case (Inl e)
      with nf Cons.prems show ?thesis by simp
    next
      case (Inr s')
      obtain tr' sf' th' k'' where r: "execOps F (Suc k) ws s' = (tr', sf', th', k'')"
        by (cases "execOps F (Suc k) ws s'") auto
      from Cons.prems(2) [of w s s'] Cons.prems(1) Inr have g: "G s s'" and i: "I s'" by auto
      have step: "\<And>w' a b. w' \<in> set ws \<Longrightarrow> I a \<Longrightarrow> applyOp w' a = Inr b \<Longrightarrow> G a b \<and> I b"
        using Cons.prems(2) by auto
      from Cons.IH [OF i step r] have "chain G s' tr' \<and> I sf'" .
      with nf Inr r g Cons.prems(3) show ?thesis by auto
    qed
  qed
qed

lemma exec_no_fault_length:
  assumes "\<forall>j. \<not> F j"
    and "\<And>w a. w \<in> set ops \<Longrightarrow> \<exists>b. applyOp w a = Inr b"
    and "execOps F k ops s = (tr, sf, th, k')"
  shows "th = None \<and> length tr = length ops"
  using assms
proof (induction ops arbitrary: k s tr sf th k')
  case Nil
  then show ?case by simp
next
  case (Cons w ws)
  from Cons.prems(2) [of w s] obtain s' where a: "applyOp w s = Inr s'" by auto
  obtain tr' sf' th' k'' where r: "execOps F (Suc k) ws s' = (tr', sf', th', k'')"
    by (cases "execOps F (Suc k) ws s'") auto
  have step: "\<And>w' a. w' \<in> set ws \<Longrightarrow> \<exists>b. applyOp w' a = Inr b"
    using Cons.prems(2) by auto
  from Cons.IH [OF Cons.prems(1) step r] have ih: "th' = None \<and> length tr' = length ws" .
  have nf: "\<not> F k" using Cons.prems(1) by simp
  from ih a r nf Cons.prems(3) show ?case by auto
qed

lemma same_view:
  assumes "runs b = runs a" and "results b = results a" and "ruleResultDocs b = ruleResultDocs a"
  shows "succeeded b runId = succeeded a runId"
    and "resultComplete b rid = resultComplete a rid"
    and "pointsTo b runId rid = pointsTo a runId rid"
    and "pending runId rid b = pending runId rid a"
    and "finished runId rid b = finished runId rid a"
proof -
  have rr: "ruleResultsOf b rid = ruleResultsOf a rid"
    using assms(3) by (simp add: ruleResultsOf_def)
  show s: "succeeded b runId = succeeded a runId"
    using assms(1) by (simp add: succeeded_def runStatusOf_def)
  show c: "resultComplete b rid = resultComplete a rid"
    by (simp only: resultComplete_def assms(2) rr)
  show p: "pointsTo b runId rid = pointsTo a runId rid"
    using assms(1) by (simp add: pointsTo_def)
  show "pending runId rid b = pending runId rid a"
    using s c by (simp add: pending_def)
  show "finished runId rid b = finished runId rid a"
    using s c p by (simp add: finished_def)
qed

lemma goodStep_same:
  assumes "pending runId rid a \<or> finished runId rid a"
    and "pending runId rid b = pending runId rid a"
    and "finished runId rid b = finished runId rid a"
    and "succeeded b runId = succeeded a runId"
  shows "goodStep runId rid a b"
  using assms by (auto simp: goodStep_def)

lemma goodStep_together: "goodStep runId rid a b \<Longrightarrow> together runId rid a b"
  by (auto simp: goodStep_def together_def pending_def finished_def)

lemma goodStep_phase:
  "goodStep runId rid a b \<Longrightarrow> pending runId rid b \<or> finished runId rid b"
  by (auto simp: goodStep_def)

lemma phase_safe:
  "pending runId rid s \<or> finished runId rid s \<Longrightarrow>
   succeeded s runId \<longrightarrow> resultComplete s rid \<and> pointsTo s runId rid"
  by (auto simp: pending_def finished_def)

lemma sideWrite_view:
  assumes "sideWrite w" and "applyOp w a = Inr b"
  shows "runs b = runs a \<and> results b = results a \<and> ruleResultDocs b = ruleResultDocs a"
  using assms by (cases w) auto

lemma sideWrite_ok: "sideWrite w \<Longrightarrow> \<exists>b. applyOp w a = Inr b"
  by (cases w) simp_all

lemma side_ops:
  assumes "list_all sideWrite ops"
    and "pending runId rid a \<or> finished runId rid a"
    and "execOps F k ops a = (tr, sf, th, k')"
  shows "chain (goodStep runId rid) a tr \<and>
         runs sf = runs a \<and> results sf = results a \<and> ruleResultDocs sf = ruleResultDocs a"
proof -
  let ?I = "\<lambda>x. runs x = runs a \<and> results x = results a \<and> ruleResultDocs x = ruleResultDocs a"
  have step: "\<And>w x y. w \<in> set ops \<Longrightarrow> ?I x \<Longrightarrow> applyOp w x = Inr y \<Longrightarrow>
                goodStep runId rid x y \<and> ?I y"
  proof -
    fix w x y
    assume w: "w \<in> set ops" and x: "?I x" and a: "applyOp w x = Inr y"
    from w assms(1) have "sideWrite w" by (simp add: list_all_iff)
    from sideWrite_view [OF this a] x have y: "?I y" by simp
    have px: "pending runId rid x = pending runId rid a"
      and fx: "finished runId rid x = finished runId rid a"
      using x same_view [of x a] by simp_all
    have py: "pending runId rid y = pending runId rid a"
      and fy: "finished runId rid y = finished runId rid a"
      and sy: "succeeded y runId = succeeded a runId"
      using y same_view [of y a] by simp_all
    have sx: "succeeded x runId = succeeded a runId"
      using x same_view [of x a] by simp
    have "goodStep runId rid x y"
      by (rule goodStep_same) (use assms(2) px fx py fy sx sy in simp_all)
    with y show "goodStep runId rid x y \<and> ?I y" by simp
  qed
  have "chain (goodStep runId rid) a tr \<and> ?I sf"
    by (rule exec_chain [where I = ?I, OF _ step assms(3)]) simp_all
  then show ?thesis by simp
qed

lemma writing_pending: "writingPhase runId rid n s \<Longrightarrow> pending runId rid s"
  by (cases "results s rid")
     (simp_all add: writingPhase_def pending_def succeeded_def resultComplete_def)

lemma writing_cong:
  "runs b = runs a \<Longrightarrow> results b = results a \<Longrightarrow>
   writingPhase runId rid n b = writingPhase runId rid n a"
  by (simp add: writingPhase_def runStatusOf_def)

lemma chunk_ops:
  assumes "writingPhase runId rid n a"
    and "execOps F k (map (RuleChunk rid) chunks) a = (tr, sf, th, k')"
  shows "chain (goodStep runId rid) a tr \<and> runs sf = runs a \<and> results sf = results a"
proof -
  let ?I = "\<lambda>x. runs x = runs a \<and> results x = results a"
  have step: "\<And>w x y. w \<in> set (map (RuleChunk rid) chunks) \<Longrightarrow> ?I x \<Longrightarrow>
                applyOp w x = Inr y \<Longrightarrow> goodStep runId rid x y \<and> ?I y"
  proof -
    fix w x y
    assume w: "w \<in> set (map (RuleChunk rid) chunks)" and x: "?I x" and a: "applyOp w x = Inr y"
    from w obtain c where "w = RuleChunk rid c" by auto
    with a have "runs y = runs x \<and> results y = results x" by auto
    with x have y: "?I y" by simp
    from x assms(1) have "writingPhase runId rid n x" using writing_cong [of x a] by simp
    then have px: "pending runId rid x" by (rule writing_pending)
    from y assms(1) have "writingPhase runId rid n y" using writing_cong [of y a] by simp
    then have py: "pending runId rid y" by (rule writing_pending)
    from px py y show "goodStep runId rid x y \<and> ?I y" by (simp add: goodStep_def)
  qed
  show ?thesis
    by (rule exec_chain [where I = ?I, OF _ step assms(2)]) simp_all
qed

lemma chunk_docs:
  assumes "execOps F k (map (RuleChunk rid) chunks) a = (tr, sf, None, k')"
  shows "ruleResultsOf sf rid = ruleResultsOf a rid @ concat chunks"
  using assms
proof (induction chunks arbitrary: k a tr)
  case Nil
  then show ?case by simp
next
  case (Cons c cs)
  let ?a' = "a\<lparr> ruleResultDocs := ruleResultDocs a @ map (\<lambda>d. (rid, d)) c \<rparr>"
  obtain tr' sf' th' k'' where r: "execOps F (Suc k) (map (RuleChunk rid) cs) ?a' = (tr', sf', th', k'')"
    by (cases "execOps F (Suc k) (map (RuleChunk rid) cs) ?a'") auto
  from Cons.prems r have nf: "\<not> F k" and e: "sf' = sf" "th' = None" "k'' = k'"
    by (auto split: if_splits)
  from Cons.IH [of "Suc k" ?a' tr'] r e
  have "ruleResultsOf sf rid = ruleResultsOf ?a' rid @ concat cs" by simp
  moreover have "ruleResultsOf ?a' rid = ruleResultsOf a rid @ c"
    by (simp add: ruleResultsOf_def comp_def)
  ultimately show ?case by simp
qed

subsection \<open>Orchestrator: the effect of each write\<close>

lemma concat_chunksOf: "0 < n \<Longrightarrow> concat (chunksOf n xs) = xs"
proof (induction n xs rule: chunksOf.induct)
  case (1 n xs)
  show ?case
  proof (cases "xs = []")
    case True
    then show ?thesis by simp
  next
    case False
    from False 1 have ih: "concat (chunksOf n (drop n xs)) = drop n xs" by simp
    have "chunksOf n xs = take n xs # chunksOf n (drop n xs)"
      using False 1(2) by (subst chunksOf.simps) simp
    with ih show ?thesis by simp
  qed
qed

lemma exec_single:
  assumes "execOps F k [w] s = (tr, sf, th, k')"
  shows "(tr = [] \<and> sf = s \<and> th \<noteq> None \<and> (F k \<or> \<not> isOk (applyOp w s))) \<or>
         (\<exists>b. applyOp w s = Inr b \<and> tr = [b] \<and> sf = b \<and> th = None \<and> \<not> F k)"
proof (cases "F k")
  case True
  with assms show ?thesis by auto
next
  case nf: False
  show ?thesis
  proof (cases "applyOp w s")
    case (Inl e)
    with nf assms show ?thesis by (auto simp: isOk_def)
  next
    case (Inr b)
    with nf assms show ?thesis by auto
  qed
qed

lemma exec_seq:
  assumes e: "execOps F k (xs @ ys) s = (tr, sf, th, k')"
    and A: "\<And>t1 s1 th1 k1. execOps F k xs s = (t1, s1, th1, k1) \<Longrightarrow>
              chain G s t1 \<and> M s1 \<and> (th1 = None \<longrightarrow> P s1) \<and> (L \<longrightarrow> th1 = None)"
    and B: "\<And>k1 s1 t2. P s1 \<Longrightarrow> execOps F k1 ys s1 = (t2, sf, th, k') \<Longrightarrow>
              chain G s1 t2 \<and> M sf \<and> (th = None \<longrightarrow> Q sf) \<and> (L \<longrightarrow> th = None)"
  shows "chain G s tr \<and> M sf \<and> (th = None \<longrightarrow> Q sf) \<and> (L \<longrightarrow> th = None)"
proof -
  obtain t1 s1 th1 k1 where x: "execOps F k xs s = (t1, s1, th1, k1)"
    by (cases "execOps F k xs s") auto
  from A [OF x] have a: "chain G s t1" "M s1" "th1 = None \<longrightarrow> P s1" "L \<longrightarrow> th1 = None"
    by simp_all
  show ?thesis
  proof (cases th1)
    case (Some err)
    with e x have "tr = t1" "sf = s1" "th = Some err" by (simp_all add: exec_append)
    with a Some show ?thesis by simp
  next
    case None
    obtain t2 s2 th2 k2 where y: "execOps F k1 ys s1 = (t2, s2, th2, k2)"
      by (cases "execOps F k1 ys s1") auto
    from e x y None have r: "tr = t1 @ t2" "sf = s2" "th = th2" "k' = k2"
      by (simp_all add: exec_append)
    from a(3) None have p: "P s1" by simp
    from y r have y': "execOps F k1 ys s1 = (t2, sf, th, k')" by simp
    from B [OF p y'] have b: "chain G s1 t2" "M sf" "th = None \<longrightarrow> Q sf" "L \<longrightarrow> th = None"
      by simp_all
    from exec_last [OF x] have "s1 = last (s # t1)" .
    with a(1) b(1) r(1) have "chain G s tr" by (simp add: chain_append)
    with b show ?thesis by simp
  qed
qed

lemma complete_cong:
  assumes "results b = results a" and "ruleResultDocs b = ruleResultDocs a"
  shows "resultComplete b rid = resultComplete a rid"
proof -
  have rr: "ruleResultsOf b rid = ruleResultsOf a rid"
    using assms(2) by (simp add: ruleResultsOf_def)
  show ?thesis by (simp only: resultComplete_def assms(1) rr)
qed

lemma untouched_pending:
  "untouched rid s \<Longrightarrow> \<not> succeeded s runId \<Longrightarrow> pending runId rid s"
  by (simp add: untouched_def pending_def resultComplete_def)

lemma begin_step:
  assumes "untouched rid a" and "\<not> succeeded a runId" and "applyOp (BeginTx runId) a = Inr b"
  shows "untouched rid b \<and> \<not> succeeded b runId \<and> goodStep runId rid a b"
proof -
  from assms(3) obtain run where run: "runs a runId = Some run"
    by (cases "runs a runId") auto
  have v: "results b = results a \<and> ruleResultDocs b = ruleResultDocs a"
    using assms(3) run by (auto split: if_splits)
  then have u: "untouched rid b" using assms(1) by (simp add: untouched_def ruleResultsOf_def)
  have s: "\<not> succeeded b runId"
    using assms(2,3) run by (auto simp: succeeded_def runStatusOf_def split: if_splits)
  from untouched_pending [OF assms(1,2)] untouched_pending [OF u s]
  have "goodStep runId rid a b" by (simp add: goodStep_def)
  with u s show ?thesis by simp
qed

lemma begin_status:
  assumes "runs a runId = Some run" and "run_status run = QUEUED"
  shows "applyOp (BeginTx runId) a =
           Inr (a\<lparr> runs := (runs a)(runId \<mapsto> run\<lparr> run_status := RUNNING \<rparr>) \<rparr>)"
  using assms by simp

lemma single_step:
  assumes "untouched rid a" and "\<not> succeeded a runId"
    and "res_resultId d = rid" and "res_writeState d = None"
    and "res_expectedRuleCount d = None"
    and "rc_total (sm_ruleCounts (res_summary d)) = length docs"
    and "applyOp (SingleBatch d docs runId fp) a = Inr b"
  shows "goodStep runId rid a b \<and> finished runId rid b \<and> succeeded b runId \<and>
         ruleResultsOf b rid = docs \<and> writeStateOf b rid = None"
proof -
  from assms(1,3) have fresh: "results a (res_resultId d) = None" by (simp add: untouched_def)
  from assms(7) fresh obtain run where run: "runs a runId = Some run"
    by (cases "runs a runId") auto
  from assms(7) fresh run
  have b: "b = a\<lparr> results := (results a)(rid \<mapsto> d),
                  ruleResultDocs := ruleResultDocs a @ map (\<lambda>x. (rid, x)) docs,
                  runs := (runs a)(runId \<mapsto> succeedRun run rid fp) \<rparr>"
    using assms(3) by auto
  have rr: "ruleResultsOf b rid = docs"
    using assms(1) by (simp add: b ruleResultsOf_def untouched_def comp_def)
  have s: "succeeded b runId"
    by (simp add: b succeeded_def runStatusOf_def succeedRun_def)
  have p: "pointsTo b runId rid" by (simp add: b pointsTo_def succeedRun_def)
  have res: "results b rid = Some d" by (simp add: b)
  have c: "resultComplete b rid"
    using assms(4,5,6) rr res by (simp add: resultComplete_def)
  from c p have f: "finished runId rid b" by (simp add: finished_def)
  have w: "writeStateOf b rid = None" using assms(4) res by (simp add: writeStateOf_def)
  from untouched_pending [OF assms(1,2)] f s rr w show ?thesis by (simp add: goodStep_def)
qed

lemma create_step:
  assumes "untouched rid a" and "runStatusOf a runId = Some RUNNING"
    and "res_resultId d = rid" and "res_writeState d = Some WRITING"
    and "res_expectedRuleCount d = Some n"
    and "rc_total (sm_ruleCounts (res_summary d)) = n"
    and "applyOp (CreateResult d) a = Inr b"
  shows "writingPhase runId rid n b \<and> ruleResultsOf b rid = [] \<and> goodStep runId rid a b"
proof -
  from assms(1,3) have fresh: "results a (res_resultId d) = None" by (simp add: untouched_def)
  from assms(7) fresh assms(3) have b: "b = a\<lparr> results := (results a)(rid \<mapsto> d) \<rparr>" by auto
  have w: "writingPhase runId rid n b"
    using assms(2,4,5,6) by (simp add: b writingPhase_def runStatusOf_def)
  have rr: "ruleResultsOf b rid = []"
    using assms(1) by (simp add: b ruleResultsOf_def untouched_def)
  from assms(2) have ns: "\<not> succeeded a runId" by (simp add: succeeded_def)
  from untouched_pending [OF assms(1) ns] writing_pending [OF w]
  have "goodStep runId rid a b" by (simp add: goodStep_def)
  with w rr show ?thesis by simp
qed

lemma create_ok:
  "untouched (res_resultId d) a \<Longrightarrow> \<exists>b. applyOp (CreateResult d) a = Inr b"
  by (simp add: untouched_def)

lemma single_ok:
  assumes "untouched (res_resultId d) a" and "runStatusOf a runId = Some RUNNING"
  shows "\<exists>b. applyOp (SingleBatch d docs runId fp) a = Inr b"
proof -
  from assms(2) obtain run where "runs a runId = Some run"
    by (cases "runs a runId") (auto simp: runStatusOf_def)
  with assms(1) show ?thesis by (simp add: untouched_def)
qed

lemma final_step:
  assumes "writingPhase runId rid n a" and "length (ruleResultsOf a rid) = n"
  shows "\<exists>b. applyOp (FinalTx runId rid fp) a = Inr b \<and> finished runId rid b \<and>
             succeeded b runId \<and> goodStep runId rid a b \<and>
             ruleResultsOf b rid = ruleResultsOf a rid \<and>
             writeStateOf b rid = Some COMPLETE"
proof -
  from assms(1) obtain cur where cur: "runs a runId = Some cur" "run_status cur = RUNNING"
    by (cases "runs a runId") (auto simp: writingPhase_def runStatusOf_def)
  from assms(1) obtain d where d: "results a rid = Some d"
      "res_expectedRuleCount d = Some n" "rc_total (sm_ruleCounts (res_summary d)) = n"
    by (cases "results a rid") (auto simp: writingPhase_def)
  let ?b = "a\<lparr> results := (results a)(rid \<mapsto> d\<lparr> res_writeState := Some COMPLETE \<rparr>),
               runs := (runs a)(runId \<mapsto> succeedRun cur rid fp) \<rparr>"
  have ap: "applyOp (FinalTx runId rid fp) a = Inr ?b" using cur d by simp
  have rr: "ruleResultsOf ?b rid = ruleResultsOf a rid" by (simp add: ruleResultsOf_def)
  have s: "succeeded ?b runId" by (simp add: succeeded_def runStatusOf_def succeedRun_def)
  have p: "pointsTo ?b runId rid" by (simp add: pointsTo_def succeedRun_def)
  have c: "resultComplete ?b rid"
    using d assms(2) by (simp add: resultComplete_def rr)
  from c p have f: "finished runId rid ?b" by (simp add: finished_def)
  from writing_pending [OF assms(1)] f s have g: "goodStep runId rid a ?b"
    by (simp add: goodStep_def)
  have "writeStateOf ?b rid = Some COMPLETE" by (simp add: writeStateOf_def)
  with ap f s g rr show ?thesis by blast
qed

lemma fail_step:
  assumes "pending runId rid a \<or> finished runId rid a"
    and "applyOp (MarkFailed runId err) a = Inr b"
  shows "goodStep runId rid a b \<and> \<not> succeeded b runId \<and>
         (pending runId rid b \<or> finished runId rid b)"
proof -
  from assms(2) obtain run where run: "runs a runId = Some run"
    by (cases "runs a runId") auto
  from assms(2) run
  have b: "b = a\<lparr> runs := (runs a)(runId \<mapsto> run\<lparr> run_status := FAILED, run_error := Some err \<rparr>) \<rparr>"
    by auto
  have s: "\<not> succeeded b runId" by (simp add: b succeeded_def runStatusOf_def)
  have c: "resultComplete b rid = resultComplete a rid"
    by (rule complete_cong) (simp_all add: b)
  show ?thesis
  proof (cases "resultComplete a rid")
    case True
    with assms(1) have fa: "finished runId rid a" by (simp add: pending_def)
    from True c s have fb: "finished runId rid b" by (simp add: finished_def)
    from fa fb s show ?thesis by (simp add: goodStep_def)
  next
    case False
    with assms(1) have pa: "pending runId rid a" by (simp add: finished_def)
    from False c s have pb: "pending runId rid b" by (simp add: pending_def)
    from pa pb s show ?thesis by (simp add: goodStep_def)
  qed
qed

subsection \<open>Orchestrator: the evaluation always delivers\<close>

lemma fixed_threshold:
  "thresholdInRange \<lparr> req_input = i, req_rules = rules, req_executedAtIso = atIso,
                       req_aiSignals = None, req_options = Some fixedOptions \<rparr>"
  by (simp add: thresholdInRange_def fixedOptions_def passScoreThresholdOf_def num_gt_def)

lemma runQc_fixed:
  "\<exists>res. runQc B \<lparr> req_input = i, req_rules = rules, req_executedAtIso = atIso,
                    req_aiSignals = None, req_options = Some fixedOptions \<rparr> = Inr res \<and>
         length (ruleResults res) = length rules"
proof -
  let ?q = "\<lparr> req_input = i, req_rules = rules, req_executedAtIso = atIso,
               req_aiSignals = None, req_options = Some fixedOptions \<rparr>"
  from fixed_threshold [of i rules atIso] runQc_Inr_iff [of B ?q]
  obtain res where r: "runQc B ?q = Inr res" by blast
  from runQc_results [OF r] have "length (ruleResults res) = length rules" by simp
  with r show ?thesis by blast
qed

lemma mapDocs_length:
  "length rrs = length rules \<Longrightarrow> length (mapDocs B rules rrs src) = length rules"
  by (simp add: mapDocs_def)

lemma computeChat_total:
  "\<exists>pc. computeChat B rules atIso src chat = Inr pc \<and> length (pc_ruleDocs pc) = length rules"
proof -
  from runQc_fixed [of B "TextInput (cs_text chat)" rules atIso]
  obtain res where r: "runQc B \<lparr> req_input = TextInput (cs_text chat), req_rules = rules,
        req_executedAtIso = atIso, req_aiSignals = None, req_options = Some fixedOptions \<rparr> = Inr res"
    and l: "length (ruleResults res) = length rules" by blast
  show ?thesis by (simp add: computeChat_def r Let_def mapDocs_length [OF l])
qed

lemma mapThrowing_total:
  assumes "\<And>x. \<exists>y. f x = Inr y \<and> P y"
  shows "\<exists>ys. mapThrowing f xs = Inr ys \<and> length ys = length xs \<and> list_all P ys"
proof (induction xs)
  case Nil
  then show ?case by simp
next
  case (Cons x xs)
  from assms [of x] obtain y where y: "f x = Inr y" "P y" by blast
  from Cons obtain ys where ys: "mapThrowing f xs = Inr ys" "length ys = length xs" "list_all P ys"
    by blast
  from y ys show ?case by simp
qed

lemma summarize_total: "rc_total (summarizeRuleStatuses ds) = length ds"
  by (simp add: summarizeRuleStatuses_def)

lemma evaluateWhole_total:
  "\<exists>c. evaluateWhole B rules i atIso src sp = Inr c \<and>
       length (cp_aggregatedRuleDocs c) = length rules \<and>
       cp_ruleCounts c = summarizeRuleStatuses (cp_aggregatedRuleDocs c) \<and>
       \<not> cp_multiChatEnabled c"
proof -
  from runQc_fixed [of B i rules atIso]
  obtain res where r: "runQc B \<lparr> req_input = i, req_rules = rules,
        req_executedAtIso = atIso, req_aiSignals = None, req_options = Some fixedOptions \<rparr> = Inr res"
    and l: "length (ruleResults res) = length rules" by blast
  show ?thesis by (simp add: evaluateWhole_def r Let_def mapDocs_length [OF l])
qed

lemma evaluateChats_total:
  assumes "chats sp \<noteq> []"
  shows "\<exists>c. evaluateChats B rules atIso src sp = Inr c \<and>
       length (cp_aggregatedRuleDocs c) = length rules \<and>
       cp_ruleCounts c = summarizeRuleStatuses (cp_aggregatedRuleDocs c) \<and>
       cp_multiChatEnabled c"
proof -
  let ?P = "\<lambda>pc. length (pc_ruleDocs pc) = length rules"
  from mapThrowing_total [of "computeChat B rules atIso src" ?P "chats sp"] computeChat_total
  obtain pcs where pcs: "mapThrowing (computeChat B rules atIso src) (chats sp) = Inr pcs"
      "length pcs = length (chats sp)" "list_all ?P pcs" by blast
  let ?per = "map (\<lambda>c. (pc_chat c, pc_ruleDocs c)) pcs"
  from pcs(2) assms have ne: "pcs \<noteq> []" by auto
  then obtain p ps where pp: "pcs = p # ps" by (cases pcs) auto
  with pcs(3) have hd: "length (snd (hd ?per)) = length rules" by simp
  have all: "\<forall>i \<in> set [0 ..< length rules]. \<forall>x \<in> set ?per. i < length (snd x)"
    using pcs(3) by (auto simp: list_all_iff)
  from combineFrom_total [OF all] ne hd
  have "combineAggregatedRuleDocs ?per =
          Inr (map (\<lambda>i. combineEntries (map (\<lambda>x. (fst x, snd x ! i)) ?per)) [0 ..< length rules])"
    by (simp add: combineAggregatedRuleDocs_def)
  then show ?thesis by (simp add: evaluateChats_def pcs(1) Let_def)
qed

lemma evaluateRun_total:
  "\<exists>c. evaluateRun B rules i atIso src = Inr c \<and>
       length (cp_aggregatedRuleDocs c) = length rules \<and>
       cp_ruleCounts c = summarizeRuleStatuses (cp_aggregatedRuleDocs c) \<and>
       cp_multiChatEnabled c = (2 \<le> segmentCount i)"
proof (cases i)
  case (TextInput t)
  show ?thesis
  proof (cases "2 \<le> length (chats (splitTranscriptIntoChats t))")
    case True
    then have "chats (splitTranscriptIntoChats t) \<noteq> []" by auto
    from evaluateChats_total [OF this, of B rules atIso src] True TextInput
    show ?thesis by (simp add: evaluateRun_def segmentCount_def)
  next
    case False
    with evaluateWhole_total [of B rules i atIso src "Some (splitTranscriptIntoChats t)"] TextInput
    show ?thesis by (simp add: evaluateRun_def segmentCount_def)
  qed
next
  case (RecordInput r)
  with evaluateWhole_total [of B rules i atIso src None]
  show ?thesis by (simp add: evaluateRun_def segmentCount_def)
next
  case (TableInput c r)
  with evaluateWhole_total [of B rules i atIso src None]
  show ?thesis by (simp add: evaluateRun_def segmentCount_def)
next
  case (AudioInput d)
  with evaluateWhole_total [of B rules i atIso src None]
  show ?thesis by (simp add: evaluateRun_def segmentCount_def)
qed

subsection \<open>Orchestrator: the phases of persistence\<close>

lemma exec_none_length:
  "execOps F k ops s = (tr, sf, None, k') \<Longrightarrow> length tr = length ops"
proof (induction ops arbitrary: k s tr)
  case Nil
  then show ?case by simp
next
  case (Cons w ws)
  from Cons.prems have nf: "\<not> F k" by (auto split: if_splits)
  with Cons.prems obtain b where b: "applyOp w s = Inr b" by (cases "applyOp w s") auto
  obtain t2 s2 th2 k2 where r: "execOps F (Suc k) ws b = (t2, s2, th2, k2)"
    by (cases "execOps F (Suc k) ws b") auto
  with Cons.prems nf b have e: "tr = b # t2" "s2 = sf" "th2 = None" "k2 = k'" by auto
  from Cons.IH [of "Suc k" b t2] r e have "length t2 = length ws" by simp
  with e show ?case by simp
qed

lemma running_not_succeeded: "runStatusOf s runId = Some RUNNING \<Longrightarrow> \<not> succeeded s runId"
  by (simp add: succeeded_def)

lemma seg_single:
  assumes u: "untouched rid s" and r: "runStatusOf s runId = Some RUNNING"
    and d: "res_resultId d = rid" "res_writeState d = None" "res_expectedRuleCount d = None"
      "rc_total (sm_ruleCounts (res_summary d)) = length docs"
    and e: "execOps F k [SingleBatch d docs runId fp] s = (tr, sf, th, k')"
  shows "chain (goodStep runId rid) s tr \<and>
         (pending runId rid sf \<or> finished runId rid sf) \<and>
         (th = None \<longrightarrow> finished runId rid sf \<and> succeeded sf runId \<and>
                       ruleResultsOf sf rid = docs \<and> writeStateOf sf rid = None) \<and>
         ((\<forall>j. \<not> F j) \<longrightarrow> th = None)"
proof -
  from r have ns: "\<not> succeeded s runId" by (rule running_not_succeeded)
  from u ns have pend: "pending runId rid s" by (rule untouched_pending)
  from u d(1) have u': "untouched (res_resultId d) s" by simp
  from single_ok [OF u' r, of docs fp] obtain b0 where
    b0: "applyOp (SingleBatch d docs runId fp) s = Inr b0" by blast
  have ok: "isOk (applyOp (SingleBatch d docs runId fp) s)"
    by (simp only: b0 isOk_def sum.case)
  from exec_single [OF e] consider
      (stop) "tr = []" "sf = s" "th \<noteq> None" "F k \<or> \<not> isOk (applyOp (SingleBatch d docs runId fp) s)"
    | (go) b where "applyOp (SingleBatch d docs runId fp) s = Inr b" "tr = [b]" "sf = b" "th = None"
    by blast
  then show ?thesis
  proof cases
    case a: stop
    from a(4) ok have "F k" by blast
    then have "\<not> (\<forall>j. \<not> F j)" by blast
    with a(1,2,3) pend show ?thesis by auto
  next
    case a: go
    from single_step [OF u ns d a(1)] a show ?thesis by simp
  qed
qed

lemma seg_create:
  assumes u: "untouched rid s" and r: "runStatusOf s runId = Some RUNNING"
    and d: "res_resultId d = rid" "res_writeState d = Some WRITING"
      "res_expectedRuleCount d = Some n" "rc_total (sm_ruleCounts (res_summary d)) = n"
    and e: "execOps F k [CreateResult d] s = (tr, sf, th, k')"
  shows "chain (goodStep runId rid) s tr \<and>
         (pending runId rid sf \<or> finished runId rid sf) \<and>
         (th = None \<longrightarrow> writingPhase runId rid n sf \<and> ruleResultsOf sf rid = []) \<and>
         ((\<forall>j. \<not> F j) \<longrightarrow> th = None)"
proof -
  from r have ns: "\<not> succeeded s runId" by (rule running_not_succeeded)
  from u ns have pend: "pending runId rid s" by (rule untouched_pending)
  from u d(1) have u': "untouched (res_resultId d) s" by simp
  from create_ok [OF u'] obtain b0 where b0: "applyOp (CreateResult d) s = Inr b0" by blast
  have ok: "isOk (applyOp (CreateResult d) s)"
    by (simp only: b0 isOk_def sum.case)
  from exec_single [OF e] consider
      (stop) "tr = []" "sf = s" "th \<noteq> None" "F k \<or> \<not> isOk (applyOp (CreateResult d) s)"
    | (go) b where "applyOp (CreateResult d) s = Inr b" "tr = [b]" "sf = b" "th = None"
    by blast
  then show ?thesis
  proof cases
    case a: stop
    from a(4) ok have "F k" by blast
    then have "\<not> (\<forall>j. \<not> F j)" by blast
    with a(1,2,3) pend show ?thesis by auto
  next
    case a: go
    from create_step [OF u r d a(1)] have
      w: "writingPhase runId rid n b" and rr: "ruleResultsOf b rid = []"
      and g: "goodStep runId rid s b" by simp_all
    from writing_pending [OF w] w rr g a show ?thesis by simp
  qed
qed

lemma seg_chunks:
  assumes w: "writingPhase runId rid n s" and rr: "ruleResultsOf s rid = []"
    and c: "concat chunks = docs"
    and e: "execOps F k (map (RuleChunk rid) chunks) s = (tr, sf, th, k')"
  shows "chain (goodStep runId rid) s tr \<and>
         (pending runId rid sf \<or> finished runId rid sf) \<and>
         (th = None \<longrightarrow> writingPhase runId rid n sf \<and> ruleResultsOf sf rid = docs) \<and>
         ((\<forall>j. \<not> F j) \<longrightarrow> th = None)"
proof -
  from chunk_ops [OF w e] have ch: "chain (goodStep runId rid) s tr"
    and v: "runs sf = runs s" "results sf = results s" by simp_all
  from v w have wf: "writingPhase runId rid n sf" using writing_cong [of sf s] by simp
  have docs: "th = None \<longrightarrow> ruleResultsOf sf rid = docs"
  proof
    assume "th = None"
    with e have "execOps F k (map (RuleChunk rid) chunks) s = (tr, sf, None, k')" by simp
    from chunk_docs [OF this] rr c show "ruleResultsOf sf rid = docs" by simp
  qed
  have live: "(\<forall>j. \<not> F j) \<longrightarrow> th = None"
  proof
    assume nf: "\<forall>j. \<not> F j"
    have "th = None \<and> length tr = length (map (RuleChunk rid) chunks)"
      by (rule exec_no_fault_length [OF nf _ e]) auto
    then show "th = None" by simp
  qed
  from ch writing_pending [OF wf] wf docs live show ?thesis by simp
qed

lemma seg_side:
  assumes "list_all sideWrite ops"
    and "pending runId rid s \<or> finished runId rid s"
    and e: "execOps F k ops s = (tr, sf, th, k')"
  shows "chain (goodStep runId rid) s tr \<and>
         (runs sf = runs s \<and> results sf = results s \<and> ruleResultDocs sf = ruleResultDocs s) \<and>
         ((\<forall>j. \<not> F j) \<longrightarrow> th = None)"
proof -
  have live: "(\<forall>j. \<not> F j) \<longrightarrow> th = None"
  proof
    assume nf: "\<forall>j. \<not> F j"
    have ok: "\<And>w a. w \<in> set ops \<Longrightarrow> \<exists>b. applyOp w a = Inr b"
      using assms(1) sideWrite_ok by (auto simp: list_all_iff)
    have "th = None \<and> length tr = length ops"
      by (rule exec_no_fault_length [OF nf ok e])
    then show "th = None" by simp
  qed
  from side_ops [OF assms(1,2) e] live show ?thesis by simp
qed

lemma seg_final:
  assumes w: "writingPhase runId rid n s" and rr: "ruleResultsOf s rid = docs"
    and n: "length docs = n"
    and e: "execOps F k [FinalTx runId rid fp] s = (tr, sf, th, k')"
  shows "chain (goodStep runId rid) s tr \<and>
         (pending runId rid sf \<or> finished runId rid sf) \<and>
         (th = None \<longrightarrow> finished runId rid sf \<and> succeeded sf runId \<and>
                       ruleResultsOf sf rid = docs \<and> writeStateOf sf rid = Some COMPLETE) \<and>
         ((\<forall>j. \<not> F j) \<longrightarrow> th = None)"
proof -
  from rr n have len: "length (ruleResultsOf s rid) = n" by simp
  from final_step [OF w len, of fp] obtain b where
    b: "applyOp (FinalTx runId rid fp) s = Inr b" "finished runId rid b" "succeeded b runId"
       "goodStep runId rid s b" "ruleResultsOf b rid = ruleResultsOf s rid"
       "writeStateOf b rid = Some COMPLETE" by blast
  from exec_single [OF e] consider
      (stop) "tr = []" "sf = s" "th \<noteq> None" "F k \<or> \<not> isOk (applyOp (FinalTx runId rid fp) s)"
    | (go) b' where "applyOp (FinalTx runId rid fp) s = Inr b'" "tr = [b']" "sf = b'" "th = None"
    by blast
  then show ?thesis
  proof cases
    case a: stop
    have "isOk (applyOp (FinalTx runId rid fp) s)" by (simp only: b(1) isOk_def sum.case)
    with a(4) have "F k" by blast
    then have "\<not> (\<forall>j. \<not> F j)" by blast
    with a(1,2,3) writing_pending [OF w] show ?thesis by auto
  next
    case a: go
    with b(1) have "b' = b" by simp
    with a b rr show ?thesis by simp
  qed
qed

lemma chatOps_side: "list_all sideWrite (chatOps rid pcs chat)"
  by (simp add: chatOps_def Let_def list_all_iff)

lemma chat_part_side:
  "list_all sideWrite
     (if cp_multiChatEnabled c then
        (case cp_chatSummaries c of
           None \<Rightarrow> []
         | Some chatSummaries \<Rightarrow> concat (map (chatOps rid (cp_perChatComputed c)) chatSummaries))
      else [])"
proof -
  have side: "sideWrite w" if "w \<in> set (chatOps rid (cp_perChatComputed c) chat)" for chat w
    using that chatOps_side [of rid "cp_perChatComputed c" chat] unfolding list_all_iff by blast
  show ?thesis
    apply (cases "cp_multiChatEnabled c")
     apply (simp_all)
    apply (cases "cp_chatSummaries c")
     apply simp
    apply (simp add: list_all_iff)
    apply (blast intro: side)
    done
qed

lemma seg_side_writing:
  assumes sw: "list_all sideWrite ops"
    and w: "writingPhase runId rid n s" and rr: "ruleResultsOf s rid = docs"
    and e: "execOps F k ops s = (tr, sf, th, k')"
  shows "chain (goodStep runId rid) s tr \<and>
         (pending runId rid sf \<or> finished runId rid sf) \<and>
         (th = None \<longrightarrow> writingPhase runId rid n sf \<and> ruleResultsOf sf rid = docs) \<and>
         ((\<forall>j. \<not> F j) \<longrightarrow> th = None)"
proof -
  from writing_pending [OF w] have m: "pending runId rid s \<or> finished runId rid s" by simp
  from seg_side [OF sw m e] have ch: "chain (goodStep runId rid) s tr"
    and v: "runs sf = runs s" "results sf = results s" "ruleResultDocs sf = ruleResultDocs s"
    and live: "(\<forall>j. \<not> F j) \<longrightarrow> th = None" by simp_all
  from v w have wf: "writingPhase runId rid n sf" using writing_cong [of sf s] by simp
  from v(3) rr have rf: "ruleResultsOf sf rid = docs" by (simp add: ruleResultsOf_def)
  from ch writing_pending [OF wf] wf rf live show ?thesis by simp
qed

lemma seg_side_done:
  assumes sw: "list_all sideWrite ops"
    and f: "finished runId rid s" and su: "succeeded s runId"
    and e: "execOps F k ops s = (tr, sf, th, k')"
  shows "chain (goodStep runId rid) s tr \<and>
         (pending runId rid sf \<or> finished runId rid sf) \<and>
         (th = None \<longrightarrow> finished runId rid sf \<and> succeeded sf runId) \<and>
         ((\<forall>j. \<not> F j) \<longrightarrow> th = None)"
proof -
  from f have m: "pending runId rid s \<or> finished runId rid s" by simp
  from seg_side [OF sw m e] have ch: "chain (goodStep runId rid) s tr"
    and v: "runs sf = runs s" "results sf = results s" "ruleResultDocs sf = ruleResultDocs s"
    and live: "(\<forall>j. \<not> F j) \<longrightarrow> th = None" by simp_all
  from same_view(1,5) [OF v] f su have "finished runId rid sf" "succeeded sf runId" by simp_all
  with ch live show ?thesis by simp
qed

lemma persist_trace:
  assumes u: "untouched rid s" and r: "runStatusOf s runId = Some RUNNING"
    and call: "inv_runId call = runId"
    and cnt: "cp_ruleCounts c = summarizeRuleStatuses (cp_aggregatedRuleDocs c)"
    and e: "execOps F k (persistOps call run rid fp c) s = (tr, sf, th, k')"
  shows "chain (goodStep runId rid) s tr \<and>
         (pending runId rid sf \<or> finished runId rid sf) \<and>
         (th = None \<longrightarrow>
            finished runId rid sf \<and> succeeded sf runId \<and>
            ruleResultsOf sf rid = cp_aggregatedRuleDocs c \<and>
            writeStateOf sf rid = (if canSingleBatch c then None else Some COMPLETE)) \<and>
         ((\<forall>j. \<not> F j) \<longrightarrow> th = None)"
proof (cases "canSingleBatch c")
  case True
  let ?d = "resultDocOf call run rid fp c"
  have d: "res_resultId ?d = rid" "res_writeState ?d = None" "res_expectedRuleCount ?d = None"
    "rc_total (sm_ruleCounts (res_summary ?d)) = length (cp_aggregatedRuleDocs c)"
    by (simp_all add: resultDocOf_def cnt summarize_total)
  from e True call
  have e': "execOps F k [SingleBatch ?d (cp_aggregatedRuleDocs c) runId fp] s = (tr, sf, th, k')"
    by (simp only: persistOps_def if_True)
  from seg_single [OF u r d e'] True show ?thesis by simp
next
  case False
  let ?docs = "cp_aggregatedRuleDocs c"
  let ?d = "(resultDocOf call run rid fp c)
              \<lparr> res_writeState := Some WRITING, res_expectedRuleCount := Some (length ?docs) \<rparr>"
  let ?chunks = "map (RuleChunk rid) (chunksOf 400 ?docs)"
  let ?chat = "(if cp_multiChatEnabled c then
                  (case cp_chatSummaries c of
                     None \<Rightarrow> []
                   | Some chatSummaries \<Rightarrow>
                       concat (map (chatOps rid (cp_perChatComputed c)) chatSummaries))
                else [])"
  let ?G = "goodStep runId rid"
  let ?M = "\<lambda>x. pending runId rid x \<or> finished runId rid x"
  let ?P1 = "\<lambda>x. writingPhase runId rid (length ?docs) x \<and> ruleResultsOf x rid = []"
  let ?P2 = "\<lambda>x. writingPhase runId rid (length ?docs) x \<and> ruleResultsOf x rid = ?docs"
  let ?Q = "\<lambda>x. finished runId rid x \<and> succeeded x runId \<and> ruleResultsOf x rid = ?docs \<and>
                writeStateOf x rid = Some COMPLETE"
  let ?L = "\<forall>j. \<not> F j"
  have d: "res_resultId ?d = rid" "res_writeState ?d = Some WRITING"
    "res_expectedRuleCount ?d = Some (length ?docs)"
    "rc_total (sm_ruleCounts (res_summary ?d)) = length ?docs"
    by (simp_all add: resultDocOf_def cnt summarize_total)
  have ops: "persistOps call run rid fp c =
               [CreateResult ?d] @ (?chunks @ (?chat @ [FinalTx runId rid fp]))"
    using False call by (simp add: persistOps_def)
  from e ops
  have e1: "execOps F k ([CreateResult ?d] @ (?chunks @ (?chat @ [FinalTx runId rid fp]))) s =
              (tr, sf, th, k')" by simp
  have "chain ?G s tr \<and> ?M sf \<and> (th = None \<longrightarrow> ?Q sf) \<and> (?L \<longrightarrow> th = None)"
  proof (rule exec_seq [where G = ?G and M = ?M and P = ?P1 and Q = ?Q and L = ?L, OF e1])
    fix t1 s1 th1 k1
    assume x: "execOps F k [CreateResult ?d] s = (t1, s1, th1, k1)"
    from seg_create [OF u r d x]
    show "chain ?G s t1 \<and> ?M s1 \<and> (th1 = None \<longrightarrow> ?P1 s1) \<and> (?L \<longrightarrow> th1 = None)" .
  next
    fix k1 s1 t2
    assume p1: "?P1 s1"
      and e2: "execOps F k1 (?chunks @ (?chat @ [FinalTx runId rid fp])) s1 = (t2, sf, th, k')"
    show "chain ?G s1 t2 \<and> ?M sf \<and> (th = None \<longrightarrow> ?Q sf) \<and> (?L \<longrightarrow> th = None)"
    proof (rule exec_seq [where G = ?G and M = ?M and P = ?P2 and Q = ?Q and L = ?L, OF e2])
      fix t1' s1' th1' k1'
      assume x: "execOps F k1 ?chunks s1 = (t1', s1', th1', k1')"
      from p1 have w: "writingPhase runId rid (length ?docs) s1"
        and rr: "ruleResultsOf s1 rid = []" by simp_all
      have cc: "concat (chunksOf 400 ?docs) = ?docs" by (rule concat_chunksOf) simp
      from seg_chunks [OF w rr cc x]
      show "chain ?G s1 t1' \<and> ?M s1' \<and> (th1' = None \<longrightarrow> ?P2 s1') \<and> (?L \<longrightarrow> th1' = None)" .
    next
      fix k2 s2 t3
      assume p2: "?P2 s2"
        and e3: "execOps F k2 (?chat @ [FinalTx runId rid fp]) s2 = (t3, sf, th, k')"
      show "chain ?G s2 t3 \<and> ?M sf \<and> (th = None \<longrightarrow> ?Q sf) \<and> (?L \<longrightarrow> th = None)"
      proof (rule exec_seq [where G = ?G and M = ?M and P = ?P2 and Q = ?Q and L = ?L, OF e3])
        fix t1' s1' th1' k1'
        assume x: "execOps F k2 ?chat s2 = (t1', s1', th1', k1')"
        from p2 have w: "writingPhase runId rid (length ?docs) s2"
          and rr: "ruleResultsOf s2 rid = ?docs" by simp_all
        from seg_side_writing [OF chat_part_side w rr x]
        show "chain ?G s2 t1' \<and> ?M s1' \<and> (th1' = None \<longrightarrow> ?P2 s1') \<and>
              (?L \<longrightarrow> th1' = None)" .
      next
        fix k3 s3 t4
        assume p3: "?P2 s3"
          and e4: "execOps F k3 [FinalTx runId rid fp] s3 = (t4, sf, th, k')"
        from p3 have w: "writingPhase runId rid (length ?docs) s3"
          and rr: "ruleResultsOf s3 rid = ?docs" by simp_all
        from seg_final [OF w rr refl e4]
        show "chain ?G s3 t4 \<and> ?M sf \<and> (th = None \<longrightarrow> ?Q sf) \<and> (?L \<longrightarrow> th = None)" .
      qed
    qed
  qed
  with False show ?thesis by simp
qed

subsection \<open>Orchestrator: one invocation\<close>

lemma planRun_shape:
  assumes "planRun B E call run = Inr ops"
  shows "\<exists>fp c a. ops = persistOps call run (env_resultId E) fp c @ [WriteAudit a] \<and>
                   cp_ruleCounts c = summarizeRuleStatuses (cp_aggregatedRuleDocs c)"
proof -
  from assms obtain rules where rules: "env_fetchRules E run = Inr rules"
    by (cases "env_fetchRules E run") (auto simp: planRun_def)
  from assms rules obtain input fp where input: "env_loadInput E run = Inr (input, fp)"
    and v: "validateUpload call run = Inr ()"
    by (cases "validateUpload call run"; cases "env_loadInput E run")
       (auto simp: planRun_def)
  from evaluateRun_total [of B rules input "env_executedAtIso E" "sourceForEvidence run"]
  obtain c where c: "evaluateRun B rules input (env_executedAtIso E) (sourceForEvidence run) = Inr c"
    and cnt: "cp_ruleCounts c = summarizeRuleStatuses (cp_aggregatedRuleDocs c)" by blast
  from assms rules v input c
  have "\<exists>a. ops = persistOps call run (env_resultId E) fp c @ [WriteAudit a]"
    by (auto simp: planRun_def)
  with cnt show ?thesis by blast
qed

lemma planRun_ok:
  assumes "loadsFor E call run"
  shows "\<exists>ops. planRun B E call run = Inr ops"
proof -
  from assms obtain rules where rules: "env_fetchRules E run = Inr rules"
    by (cases "env_fetchRules E run") (auto simp: loadsFor_def isOk_def)
  from assms have v: "validateUpload call run = Inr ()"
    by (cases "validateUpload call run") (auto simp: loadsFor_def isOk_def)
  from assms obtain input fp where input: "env_loadInput E run = Inr (input, fp)"
    by (cases "env_loadInput E run") (auto simp: loadsFor_def isOk_def)
  from evaluateRun_total [of B rules input "env_executedAtIso E" "sourceForEvidence run"]
  obtain c where c: "evaluateRun B rules input (env_executedAtIso E) (sourceForEvidence run) = Inr c"
    by blast
  from rules v input c show ?thesis by (simp add: planRun_def)
qed

lemma plan_trace:
  assumes u: "untouched rid s" and r: "runStatusOf s runId = Some RUNNING"
    and call: "inv_runId call = runId"
    and cnt: "cp_ruleCounts c = summarizeRuleStatuses (cp_aggregatedRuleDocs c)"
    and e: "execOps F k (persistOps call run rid fp c @ [WriteAudit a]) s = (tr, sf, th, k')"
  shows "chain (goodStep runId rid) s tr \<and>
         (pending runId rid sf \<or> finished runId rid sf) \<and>
         (th = None \<longrightarrow> finished runId rid sf \<and> succeeded sf runId) \<and>
         ((\<forall>j. \<not> F j) \<longrightarrow> th = None)"
proof (rule exec_seq [where G = "goodStep runId rid"
      and M = "\<lambda>x. pending runId rid x \<or> finished runId rid x"
      and P = "\<lambda>x. finished runId rid x \<and> succeeded x runId"
      and Q = "\<lambda>x. finished runId rid x \<and> succeeded x runId"
      and L = "\<forall>j. \<not> F j", OF e])
  fix t1 s1 th1 k1
  assume x: "execOps F k (persistOps call run rid fp c) s = (t1, s1, th1, k1)"
  from persist_trace [OF u r call cnt x]
  show "chain (goodStep runId rid) s t1 \<and> (pending runId rid s1 \<or> finished runId rid s1) \<and>
        (th1 = None \<longrightarrow> finished runId rid s1 \<and> succeeded s1 runId) \<and>
        ((\<forall>j. \<not> F j) \<longrightarrow> th1 = None)" by simp
next
  fix k1 s1 t2
  assume p: "finished runId rid s1 \<and> succeeded s1 runId"
    and y: "execOps F k1 [WriteAudit a] s1 = (t2, sf, th, k')"
  from p have f: "finished runId rid s1" and su: "succeeded s1 runId" by simp_all
  have sw: "list_all sideWrite [WriteAudit a]" by simp
  from seg_side_done [OF sw f su y]
  show "chain (goodStep runId rid) s1 t2 \<and> (pending runId rid sf \<or> finished runId rid sf) \<and>
        (th = None \<longrightarrow> finished runId rid sf \<and> succeeded sf runId) \<and>
        ((\<forall>j. \<not> F j) \<longrightarrow> th = None)" .
qed

lemma fail_trace:
  assumes m: "pending runId rid s \<or> finished runId rid s"
    and call: "inv_runId call = runId"
    and e: "execOps F k (failureOps call err) s = (tr, sf, th, k')"
  shows "chain (goodStep runId rid) s tr"
proof -
  let ?M = "\<lambda>x. pending runId rid x \<or> finished runId rid x"
  have step: "\<And>w a b. w \<in> set (failureOps call err) \<Longrightarrow> ?M a \<Longrightarrow> applyOp w a = Inr b \<Longrightarrow>
                goodStep runId rid a b \<and> ?M b"
  proof -
    fix w a b
    assume w: "w \<in> set (failureOps call err)" and a: "?M a" and ap: "applyOp w a = Inr b"
    from w call consider (mark) pe where "w = MarkFailed runId pe" | (audit) entry where "w = WriteAudit entry"
      by (auto simp: failureOps_def Let_def)
    then show "goodStep runId rid a b \<and> ?M b"
    proof cases
      case mark
      with ap have "applyOp (MarkFailed runId pe) a = Inr b" by simp
      from fail_step [OF a this] show ?thesis by simp
    next
      case audit
      then have "sideWrite w" by simp
      from sideWrite_view [OF this ap]
      have v: "runs b = runs a" "results b = results a" "ruleResultDocs b = ruleResultDocs a"
        by simp_all
      have g: "goodStep runId rid a b"
        by (rule goodStep_same [OF a same_view(4) [OF v] same_view(5) [OF v] same_view(1) [OF v]])
      from same_view(4,5) [OF v] a have "?M b" by simp
      with g show ?thesis by simp
    qed
  qed
  from exec_chain [where I = ?M and G = "goodStep runId rid", OF m step e]
  show ?thesis by simp
qed

lemma runBody_trace:
  assumes u: "untouched (env_resultId E) s" and r: "runStatusOf s runId = Some RUNNING"
    and call: "inv_runId call = runId"
    and b: "runBody B E F call k s run = (tr, out)"
  shows "chain (goodStep runId (env_resultId E)) s tr \<and>
         ((\<forall>j. \<not> F j) \<and> loadsFor E call run \<longrightarrow>
            out = Resolved \<and> succeeded (last (s # tr)) runId)"
proof -
  let ?rid = "env_resultId E"
  from r have ns: "\<not> succeeded s runId" by (rule running_not_succeeded)
  from u ns have pend: "pending runId ?rid s" by (rule untouched_pending)
  show ?thesis
  proof (cases "planRun B E call run")
    case (Inl e0)
    obtain tr3 s3 th3 k3 where f: "execOps F k (failureOps call e0) s = (tr3, s3, th3, k3)"
      by (cases "execOps F k (failureOps call e0) s") auto
    from b Inl f have tr: "tr = tr3" by (cases th3) (simp_all add: runBody_def)
    from pend have m: "pending runId ?rid s \<or> finished runId ?rid s" by simp
    from fail_trace [OF m call f] tr have ch: "chain (goodStep runId ?rid) s tr" by simp
    from Inl planRun_ok [of E call run B] have "\<not> loadsFor E call run" by auto
    with ch show ?thesis by simp
  next
    case (Inr ops)
    from planRun_shape [OF Inr] obtain fp c a where
      ops: "ops = persistOps call run ?rid fp c @ [WriteAudit a]"
      and cnt: "cp_ruleCounts c = summarizeRuleStatuses (cp_aggregatedRuleDocs c)" by blast
    obtain tr2 s2 th2 k2 where x: "execOps F k ops s = (tr2, s2, th2, k2)"
      by (cases "execOps F k ops s") auto
    from x ops have x': "execOps F k (persistOps call run ?rid fp c @ [WriteAudit a]) s =
                           (tr2, s2, th2, k2)" by simp
    from plan_trace [OF u r call cnt x']
    have ch2: "chain (goodStep runId ?rid) s tr2"
      and m2: "pending runId ?rid s2 \<or> finished runId ?rid s2"
      and q2: "th2 = None \<longrightarrow> finished runId ?rid s2 \<and> succeeded s2 runId"
      and l2: "(\<forall>j. \<not> F j) \<longrightarrow> th2 = None" by simp_all
    from exec_last [OF x] have last2: "s2 = last (s # tr2)" .
    show ?thesis
    proof (cases th2)
      case None
      with b Inr x have "tr = tr2" "out = Resolved" by (simp_all add: runBody_def)
      with ch2 q2 None last2 show ?thesis by simp
    next
      case (Some e1)
      obtain tr3 s3 th3 k3 where f: "execOps F k2 (failureOps call e1) s2 = (tr3, s3, th3, k3)"
        by (cases "execOps F k2 (failureOps call e1) s2") auto
      from b Inr x Some f have tr: "tr = tr2 @ tr3" by (cases th3) (simp_all add: runBody_def)
      from fail_trace [OF m2 call f] have "chain (goodStep runId ?rid) s2 tr3" .
      with ch2 last2 tr have ch: "chain (goodStep runId ?rid) s tr" by (simp add: chain_append)
      from l2 Some have "\<not> (\<forall>j. \<not> F j)" by auto
      with ch show ?thesis by blast
    qed
  qed
qed

lemma processQcRun_trace:
  assumes u: "untouched (env_resultId E) s0" and ns: "\<not> succeeded s0 (inv_runId call)"
    and p: "processQcRun B E F call s0 = (tr, out)"
  shows "chain (goodStep (inv_runId call) (env_resultId E)) s0 tr \<and>
         (\<forall>run0. runs s0 (inv_runId call) = Some run0 \<and> run_status run0 = QUEUED \<and>
                 (\<forall>j. \<not> F j) \<and> loadsFor E call (run0\<lparr> run_status := RUNNING \<rparr>) \<longrightarrow>
                 out = Resolved \<and> succeeded (last (s0 # tr)) (inv_runId call))"
proof -
  let ?runId = "inv_runId call" and ?rid = "env_resultId E"
  obtain tr1 s1 th1 k1 where x: "execOps F 0 [BeginTx ?runId] s0 = (tr1, s1, th1, k1)"
    by (cases "execOps F 0 [BeginTx ?runId] s0") auto
  from exec_single [OF x] consider
      (stop) "tr1 = []" "s1 = s0" "th1 \<noteq> None" "F 0 \<or> \<not> isOk (applyOp (BeginTx ?runId) s0)"
    | (go) b where "applyOp (BeginTx ?runId) s0 = Inr b" "tr1 = [b]" "s1 = b" "th1 = None"
    by blast
  then show ?thesis
  proof cases
    case stop
    from stop(3) obtain e where e: "th1 = Some e" by auto
    from p x e have tr: "tr = tr1" by (simp add: processQcRun_def)
    have "\<not> (\<exists>run0. runs s0 ?runId = Some run0 \<and> run_status run0 = QUEUED \<and> (\<forall>j. \<not> F j))"
    proof
      assume "\<exists>run0. runs s0 ?runId = Some run0 \<and> run_status run0 = QUEUED \<and> (\<forall>j. \<not> F j)"
      then obtain run0 where q: "runs s0 ?runId = Some run0" "run_status run0 = QUEUED"
        and nf: "\<forall>j. \<not> F j" by blast
      from begin_status [OF q] have "isOk (applyOp (BeginTx ?runId) s0)"
        by (simp only: isOk_def sum.case)
      with stop(4) nf show False by blast
    qed
    with tr stop(1) show ?thesis by auto
  next
    case go
    from begin_step [OF u ns go(1)] have ub: "untouched ?rid b"
      and nsb: "\<not> succeeded b ?runId" and g: "goodStep ?runId ?rid s0 b" by simp_all
    have p': "processQcRun B E F call s0 =
               (case runs b ?runId of
                  None \<Rightarrow> ([b], Rejected (Thrown (TypeError (str ''run is undefined''))))
                | Some run \<Rightarrow>
                    (if run_status run \<noteq> RUNNING then ([b], Resolved)
                     else (case runBody B E F call k1 b run of (t, out) \<Rightarrow> ([b] @ t, out))))"
      using x go(2,3,4) by (simp add: processQcRun_def)
    have queued: "\<And>run0. runs s0 ?runId = Some run0 \<Longrightarrow> run_status run0 = QUEUED \<Longrightarrow>
                   runs b ?runId = Some (run0\<lparr> run_status := RUNNING \<rparr>)"
    proof -
      fix run0
      assume q: "runs s0 ?runId = Some run0" "run_status run0 = QUEUED"
      from begin_status [OF q] go(1)
      have "b = s0\<lparr> runs := (runs s0)(?runId \<mapsto> run0\<lparr> run_status := RUNNING \<rparr>) \<rparr>" by simp
      then show "runs b ?runId = Some (run0\<lparr> run_status := RUNNING \<rparr>)" by simp
    qed
    show ?thesis
    proof (cases "runs b ?runId")
      case None
      with p p' have "tr = [b]" by simp
      with g None queued show ?thesis by auto
    next
      case (Some run)
      show ?thesis
      proof (cases "run_status run = RUNNING")
        case False
        with p p' Some have "tr = [b]" by simp
        with g Some False queued show ?thesis by auto
      next
        case True
        obtain t out' where rb: "runBody B E F call k1 b run = (t, out')"
          by (cases "runBody B E F call k1 b run") auto
        from p p' Some True rb have tr: "tr = b # t" and out: "out = out'" by simp_all
        from Some True have r: "runStatusOf b ?runId = Some RUNNING" by (simp add: runStatusOf_def)
        from runBody_trace [OF ub r refl rb]
        have ch: "chain (goodStep ?runId ?rid) b t"
          and live: "(\<forall>j. \<not> F j) \<and> loadsFor E call run \<longrightarrow>
                       out' = Resolved \<and> succeeded (last (b # t)) ?runId" by simp_all
        from g ch tr have c: "chain (goodStep ?runId ?rid) s0 tr" by simp
        have "\<forall>run0. runs s0 ?runId = Some run0 \<and> run_status run0 = QUEUED \<and>
                 (\<forall>j. \<not> F j) \<and> loadsFor E call (run0\<lparr> run_status := RUNNING \<rparr>) \<longrightarrow>
                 out = Resolved \<and> succeeded (last (s0 # tr)) ?runId"
        proof (intro allI impI)
          fix run0
          assume h: "runs s0 ?runId = Some run0 \<and> run_status run0 = QUEUED \<and>
                 (\<forall>j. \<not> F j) \<and> loadsFor E call (run0\<lparr> run_status := RUNNING \<rparr>)"
          from h queued [of run0] Some have "run = run0\<lparr> run_status := RUNNING \<rparr>" by simp
          with h live have "out' = Resolved \<and> succeeded (last (b # t)) ?runId" by simp
          with tr out show "out = Resolved \<and> succeeded (last (s0 # tr)) ?runId" by simp
        qed
        with c show ?thesis by simp
      qed
    qed
  qed
qed

subsection \<open>Orchestrator: evaluated examples\<close>

lemma twoChat_segments: "segmentCount (TextInput twoChatText) = 2"
  by code_simp

lemma shortText_segments: "segmentCount (TextInput shortText) = 1"
  by code_simp

lemma shortRun_history: "map observe (fst (processQcRun exampleHost shortEnv noFaults exampleCall exampleStore)) =
   [(Some RUNNING, None, 0), (Some SUCCEEDED, None, 2), (Some SUCCEEDED, None, 2)]"
  by code_simp

lemma exampleRun_history: "map observe (fst (processQcRun exampleHost exampleEnv noFaults exampleCall exampleStore)) =
   [(Some RUNNING, None, 0), (Some RUNNING, Some WRITING, 0), (Some RUNNING, Some WRITING, 2),
    (Some RUNNING, Some WRITING, 2), (Some RUNNING, Some WRITING, 2),
    (Some RUNNING, Some WRITING, 2), (Some RUNNING, Some WRITING, 2),
    (Some SUCCEEDED, Some COMPLETE, 2), (Some SUCCEEDED, Some COMPLETE, 2)]"
  by code_simp

lemma duplicateRun_history: "map observe (fst (processQcRun exampleHost exampleEnv noFaults exampleCall runningStore)) =
   [(Some RUNNING, None, 0), (Some RUNNING, Some WRITING, 0), (Some RUNNING, Some WRITING, 2),
    (Some RUNNING, Some WRITING, 2), (Some RUNNING, Some WRITING, 2),
    (Some RUNNING, Some WRITING, 2), (Some RUNNING, Some WRITING, 2),
    (Some SUCCEEDED, Some COMPLETE, 2), (Some SUCCEEDED, Some COMPLETE, 2)]"
  by code_simp

subsection \<open>Orchestrator: completion\<close>

lemma chain_mono:
  assumes "\<And>a b. G a b \<Longrightarrow> H a b"
  shows "chain G s tr \<Longrightarrow> chain H s tr"
  by (induction tr arbitrary: s) (auto intro: assms)

lemma chain_states:
  assumes "\<And>a b. G a b \<Longrightarrow> P b"
  shows "chain G s tr \<Longrightarrow> list_all P tr"
  by (induction tr arbitrary: s) (auto intro: assms)

lemma complete_not_writing: "resultComplete s rid \<Longrightarrow> writeStateOf s rid \<noteq> Some WRITING"
  by (cases "results s rid") (simp_all add: resultComplete_def writeStateOf_def)

text \<open>
  C1. One invocation of \<open>processQcRun\<close>, from a store in which the run is not SUCCEEDED
  and the result id of the invocation is fresh, whichever store calls fail. In every state
  the store goes through, a run that is SUCCEEDED has a complete result (the result exists,
  is not WRITING, and holds as many rule results as its summary counts and as its
  \<open>expectedRuleCount\<close> announces) and points to it. Every write makes the run SUCCEEDED
  exactly when it makes the result complete. And when the run is QUEUED, no store call
  fails, and rules and input load, the invocation resolves with the run SUCCEEDED.
\<close>

theorem two_phase_completion:
  assumes "untouched (env_resultId E) s0"
    and "\<not> succeeded s0 (inv_runId call)"
    and "processQcRun B E F call s0 = (tr, out)"
  shows "list_all (\<lambda>s. succeeded s (inv_runId call) \<longrightarrow>
                       resultComplete s (env_resultId E) \<and>
                       pointsTo s (inv_runId call) (env_resultId E) \<and>
                       writeStateOf s (env_resultId E) \<noteq> Some WRITING) tr \<and>
         chain (together (inv_runId call) (env_resultId E)) s0 tr \<and>
         (\<forall>run0. runs s0 (inv_runId call) = Some run0 \<and> run_status run0 = QUEUED \<and>
                 (\<forall>j. \<not> F j) \<and> loadsFor E call (run0\<lparr> run_status := RUNNING \<rparr>) \<longrightarrow>
                 out = Resolved \<and> succeeded (last (s0 # tr)) (inv_runId call))"
proof -
  let ?runId = "inv_runId call" and ?rid = "env_resultId E"
  from processQcRun_trace [OF assms]
  have ch: "chain (goodStep ?runId ?rid) s0 tr"
    and live: "\<forall>run0. runs s0 ?runId = Some run0 \<and> run_status run0 = QUEUED \<and>
                 (\<forall>j. \<not> F j) \<and> loadsFor E call (run0\<lparr> run_status := RUNNING \<rparr>) \<longrightarrow>
                 out = Resolved \<and> succeeded (last (s0 # tr)) ?runId" by simp_all
  have safe: "\<And>a b. goodStep ?runId ?rid a b \<Longrightarrow>
                succeeded b ?runId \<longrightarrow> resultComplete b ?rid \<and> pointsTo b ?runId ?rid \<and>
                  writeStateOf b ?rid \<noteq> Some WRITING"
  proof -
    fix a b
    assume "goodStep ?runId ?rid a b"
    from phase_safe [OF goodStep_phase [OF this]] complete_not_writing [of b ?rid]
    show "succeeded b ?runId \<longrightarrow> resultComplete b ?rid \<and> pointsTo b ?runId ?rid \<and>
            writeStateOf b ?rid \<noteq> Some WRITING" by blast
  qed
  have 1: "list_all (\<lambda>s. succeeded s ?runId \<longrightarrow> resultComplete s ?rid \<and>
             pointsTo s ?runId ?rid \<and> writeStateOf s ?rid \<noteq> Some WRITING) tr"
    by (rule chain_states [OF safe ch])
  have 2: "chain (together ?runId ?rid) s0 tr"
    by (rule chain_mono [OF goodStep_together ch])
  from 1 2 live show ?thesis by simp
qed

theorem two_phase_completion_witness:
  "list_all (\<lambda>s. succeeded s (str ''run-1'') \<longrightarrow>
                       resultComplete s (str ''res-1'') \<and>
                       pointsTo s (str ''run-1'') (str ''res-1'') \<and>
                       writeStateOf s (str ''res-1'') \<noteq> Some WRITING)
     (fst (processQcRun exampleHost exampleEnv noFaults exampleCall exampleStore)) \<and>
   chain (together (str ''run-1'') (str ''res-1'')) exampleStore
     (fst (processQcRun exampleHost exampleEnv noFaults exampleCall exampleStore)) \<and>
   snd (processQcRun exampleHost exampleEnv noFaults exampleCall exampleStore) = Resolved \<and>
   succeeded (last (exampleStore #
     fst (processQcRun exampleHost exampleEnv noFaults exampleCall exampleStore))) (str ''run-1'') \<and>
   map observe (fst (processQcRun exampleHost exampleEnv noFaults exampleCall exampleStore)) =
     [(Some RUNNING, None, 0), (Some RUNNING, Some WRITING, 0), (Some RUNNING, Some WRITING, 2),
      (Some RUNNING, Some WRITING, 2), (Some RUNNING, Some WRITING, 2),
      (Some RUNNING, Some WRITING, 2), (Some RUNNING, Some WRITING, 2),
      (Some SUCCEEDED, Some COMPLETE, 2), (Some SUCCEEDED, Some COMPLETE, 2)]"
proof -
  let ?p = "processQcRun exampleHost exampleEnv noFaults exampleCall exampleStore"
  have u: "untouched (env_resultId exampleEnv) exampleStore"
    by (simp add: untouched_def exampleEnv_def exampleStore_def ruleResultsOf_def)
  have ns: "\<not> succeeded exampleStore (inv_runId exampleCall)"
    by (simp add: succeeded_def runStatusOf_def exampleStore_def exampleCall_def exampleRun_def)
  have p: "?p = (fst ?p, snd ?p)" by simp
  have ids: "inv_runId exampleCall = str ''run-1''" "env_resultId exampleEnv = str ''res-1''"
    by (simp_all add: exampleCall_def exampleEnv_def)
  have q: "runs exampleStore (inv_runId exampleCall) = Some exampleRun"
    "run_status exampleRun = QUEUED"
    by (simp_all add: exampleStore_def exampleCall_def exampleRun_def)
  have nf: "\<forall>j. \<not> noFaults j" by (simp add: noFaults_def)
  have l: "loadsFor exampleEnv exampleCall (exampleRun\<lparr> run_status := RUNNING \<rparr>)"
    by (simp add: loadsFor_def isOk_def exampleEnv_def validateUpload_def exampleRun_def)
  from two_phase_completion [OF u ns p] q nf l ids exampleRun_history show ?thesis by simp
qed

subsection \<open>Orchestrator: choice of the write path\<close>

lemma two_phase_first:
  assumes u: "untouched rid s" and ns: "\<not> canSingleBatch c" and nf: "\<not> F k"
    and e: "execOps F k (persistOps call run rid fp c) s = (tr, sf, th, k')"
  shows "tr \<noteq> [] \<and> writeStateOf (hd tr) rid = Some WRITING \<and>
         expectedCountOf (hd tr) rid = Some (length (cp_aggregatedRuleDocs c)) \<and>
         runs (hd tr) = runs s"
proof -
  let ?d = "(resultDocOf call run rid fp c)
              \<lparr> res_writeState := Some WRITING,
                res_expectedRuleCount := Some (length (cp_aggregatedRuleDocs c)) \<rparr>"
  let ?s1 = "s\<lparr> results := (results s)(rid \<mapsto> ?d) \<rparr>"
  from ns obtain rest where ops: "persistOps call run rid fp c = CreateResult ?d # rest"
    by (simp add: persistOps_def)
  have rid: "res_resultId ?d = rid" by (simp add: resultDocOf_def)
  from u rid have ap: "applyOp (CreateResult ?d) s = Inr ?s1" by (simp add: untouched_def)
  obtain t2 s2 th2 k2 where r: "execOps F (Suc k) rest ?s1 = (t2, s2, th2, k2)"
    by (cases "execOps F (Suc k) rest ?s1") auto
  have "execOps F k (CreateResult ?d # rest) s = (?s1 # t2, s2, th2, k2)"
    by (simp only: execOps.simps nf if_False ap sum.case r prod.case)
  with e ops have tr: "tr = ?s1 # t2" by simp
  show ?thesis by (simp add: tr writeStateOf_def expectedCountOf_def)
qed

lemma persistOps_length: "\<not> canSingleBatch c \<Longrightarrow> 2 \<le> length (persistOps call run rid fp c)"
  by (simp add: persistOps_def)

text \<open>
  C8. Let \<open>c\<close> be what the evaluation of \<open>rules\<close> on the input \<open>i\<close> hands to the persistence
  step, and let the writes of \<open>persistOps\<close> run without a store failure from a store in which
  the run is RUNNING and the result id is fresh. The single batch is chosen exactly when the
  input is evaluated in fewer than two segments and 1 + N + 1 is at most 450, N the number
  of rules. With the single batch, one write leaves the run SUCCEEDED with all N rule
  results and a result without write state. Otherwise there are at least two writes; after
  the first the result is WRITING with \<open>expectedRuleCount\<close> N while the run is still
  RUNNING, and at the end the result is COMPLETE and the run SUCCEEDED with all N rule
  results. 500 rules, or two segments or more, always take the second path.
\<close>

theorem persistence_path:
  assumes ev: "evaluateRun B rules i atIso src = Inr c"
    and u: "untouched rid s"
    and r: "runStatusOf s (inv_runId call) = Some RUNNING"
    and e: "execOps (\<lambda>j. False) k (persistOps call run rid fp c) s = (tr, sf, th, k')"
  shows "canSingleBatch c = (segmentCount i < 2 \<and> 1 + length rules + 1 \<le> 450) \<and>
         (canSingleBatch c \<longrightarrow>
            th = None \<and> length tr = 1 \<and> writeStateOf sf rid = None \<and>
            succeeded sf (inv_runId call) \<and> length (ruleResultsOf sf rid) = length rules) \<and>
         (\<not> canSingleBatch c \<longrightarrow>
            th = None \<and> 2 \<le> length tr \<and>
            writeStateOf (hd tr) rid = Some WRITING \<and>
            expectedCountOf (hd tr) rid = Some (length rules) \<and>
            runStatusOf (hd tr) (inv_runId call) = Some RUNNING \<and>
            writeStateOf sf rid = Some COMPLETE \<and>
            succeeded sf (inv_runId call) \<and> length (ruleResultsOf sf rid) = length rules) \<and>
         (length rules = 500 \<or> 2 \<le> segmentCount i \<longrightarrow> \<not> canSingleBatch c)"
proof -
  let ?runId = "inv_runId call"
  from evaluateRun_total [of B rules i atIso src] ev
  have len: "length (cp_aggregatedRuleDocs c) = length rules"
    and cnt: "cp_ruleCounts c = summarizeRuleStatuses (cp_aggregatedRuleDocs c)"
    and multi: "cp_multiChatEnabled c = (2 \<le> segmentCount i)" by simp_all
  have choice: "canSingleBatch c = (segmentCount i < 2 \<and> 1 + length rules + 1 \<le> 450)"
    using len multi by (auto simp: canSingleBatch_def Let_def)
  from persist_trace [OF u r refl cnt e]
  have th: "th = None"
    and fin: "succeeded sf ?runId" "ruleResultsOf sf rid = cp_aggregatedRuleDocs c"
      "writeStateOf sf rid = (if canSingleBatch c then None else Some COMPLETE)"
    by simp_all
  from e th have e': "execOps (\<lambda>j. False) k (persistOps call run rid fp c) s = (tr, sf, None, k')"
    by simp
  from exec_none_length [OF e'] have ltr: "length tr = length (persistOps call run rid fp c)" .
  have single: "canSingleBatch c \<longrightarrow>
            th = None \<and> length tr = 1 \<and> writeStateOf sf rid = None \<and>
            succeeded sf ?runId \<and> length (ruleResultsOf sf rid) = length rules"
  proof
    assume c: "canSingleBatch c"
    then have "length (persistOps call run rid fp c) = 1" by (simp add: persistOps_def)
    with ltr th fin len c
    show "th = None \<and> length tr = 1 \<and> writeStateOf sf rid = None \<and>
            succeeded sf ?runId \<and> length (ruleResultsOf sf rid) = length rules" by simp
  qed
  have two: "\<not> canSingleBatch c \<longrightarrow>
            th = None \<and> 2 \<le> length tr \<and>
            writeStateOf (hd tr) rid = Some WRITING \<and>
            expectedCountOf (hd tr) rid = Some (length rules) \<and>
            runStatusOf (hd tr) ?runId = Some RUNNING \<and>
            writeStateOf sf rid = Some COMPLETE \<and>
            succeeded sf ?runId \<and> length (ruleResultsOf sf rid) = length rules"
  proof
    assume c: "\<not> canSingleBatch c"
    have nf: "\<not> (\<lambda>j. False) k" by simp
    from two_phase_first [OF u c nf e]
    have first: "writeStateOf (hd tr) rid = Some WRITING"
      "expectedCountOf (hd tr) rid = Some (length (cp_aggregatedRuleDocs c))"
      "runs (hd tr) = runs s" by simp_all
    from first(3) r have "runStatusOf (hd tr) ?runId = Some RUNNING" by (simp add: runStatusOf_def)
    with persistOps_length [OF c, of call run rid fp] ltr th fin len c first(1,2)
    show "th = None \<and> 2 \<le> length tr \<and>
            writeStateOf (hd tr) rid = Some WRITING \<and>
            expectedCountOf (hd tr) rid = Some (length rules) \<and>
            runStatusOf (hd tr) ?runId = Some RUNNING \<and>
            writeStateOf sf rid = Some COMPLETE \<and>
            succeeded sf ?runId \<and> length (ruleResultsOf sf rid) = length rules" by simp
  qed
  have large: "length rules = 500 \<or> 2 \<le> segmentCount i \<longrightarrow> \<not> canSingleBatch c"
    using choice by auto
  from choice single two large show ?thesis by blast
qed

theorem persistence_path_witness:
  "(\<exists>c tr sf th k'.
     evaluateRun exampleHost exampleRules (TextInput twoChatText) exampleTime None = Inr c \<and>
     execOps (\<lambda>j. False) 1
       (persistOps exampleCall (exampleRun\<lparr> run_status := RUNNING \<rparr>) (str ''res-1'')
          (str ''fp-1'') c) runningStore = (tr, sf, th, k') \<and>
     segmentCount (TextInput twoChatText) = 2 \<and> length exampleRules = 2 \<and>
     \<not> canSingleBatch c \<and> th = None \<and> 2 \<le> length tr \<and>
     writeStateOf (hd tr) (str ''res-1'') = Some WRITING \<and>
     expectedCountOf (hd tr) (str ''res-1'') = Some 2 \<and>
     runStatusOf (hd tr) (str ''run-1'') = Some RUNNING \<and>
     writeStateOf sf (str ''res-1'') = Some COMPLETE \<and>
     succeeded sf (str ''run-1'') \<and> length (ruleResultsOf sf (str ''res-1'')) = 2) \<and>
   (\<exists>c tr sf th k'.
     evaluateRun exampleHost exampleRules (TextInput shortText) exampleTime None = Inr c \<and>
     execOps (\<lambda>j. False) 1
       (persistOps exampleCall (exampleRun\<lparr> run_status := RUNNING \<rparr>) (str ''res-1'')
          (str ''fp-2'') c) runningStore = (tr, sf, th, k') \<and>
     segmentCount (TextInput shortText) = 1 \<and>
     canSingleBatch c \<and> th = None \<and> length tr = 1 \<and>
     writeStateOf sf (str ''res-1'') = None \<and>
     succeeded sf (str ''run-1'') \<and> length (ruleResultsOf sf (str ''res-1'')) = 2)"
proof -
  let ?run = "exampleRun\<lparr> run_status := RUNNING \<rparr>"
  have u: "untouched (str ''res-1'') runningStore"
    by (simp add: untouched_def runningStore_def exampleStore_def ruleResultsOf_def)
  have r: "runStatusOf runningStore (inv_runId exampleCall) = Some RUNNING"
    by (simp add: runStatusOf_def runningStore_def exampleStore_def exampleCall_def)
  have id: "inv_runId exampleCall = str ''run-1''" by (simp add: exampleCall_def)
  have n: "length exampleRules = 2" by (simp add: exampleRules_def)
  have two: "\<exists>c tr sf th k'.
     evaluateRun exampleHost exampleRules (TextInput twoChatText) exampleTime None = Inr c \<and>
     execOps (\<lambda>j. False) 1
       (persistOps exampleCall ?run (str ''res-1'') (str ''fp-1'') c) runningStore =
       (tr, sf, th, k') \<and>
     segmentCount (TextInput twoChatText) = 2 \<and> length exampleRules = 2 \<and>
     \<not> canSingleBatch c \<and> th = None \<and> 2 \<le> length tr \<and>
     writeStateOf (hd tr) (str ''res-1'') = Some WRITING \<and>
     expectedCountOf (hd tr) (str ''res-1'') = Some 2 \<and>
     runStatusOf (hd tr) (str ''run-1'') = Some RUNNING \<and>
     writeStateOf sf (str ''res-1'') = Some COMPLETE \<and>
     succeeded sf (str ''run-1'') \<and> length (ruleResultsOf sf (str ''res-1'')) = 2"
  proof -
    from evaluateRun_total [of exampleHost exampleRules "TextInput twoChatText" exampleTime None]
    obtain c where
      c: "evaluateRun exampleHost exampleRules (TextInput twoChatText) exampleTime None = Inr c"
      by blast
    let ?ops = "persistOps exampleCall ?run (str ''res-1'') (str ''fp-1'') c"
    obtain tr sf th k' where e: "execOps (\<lambda>j. False) 1 ?ops runningStore = (tr, sf, th, k')"
      by (cases "execOps (\<lambda>j. False) 1 ?ops runningStore") auto
    from persistence_path [OF c u r e] twoChat_segments n id
    have "\<not> canSingleBatch c \<and> th = None \<and> 2 \<le> length tr \<and>
       writeStateOf (hd tr) (str ''res-1'') = Some WRITING \<and>
       expectedCountOf (hd tr) (str ''res-1'') = Some 2 \<and>
       runStatusOf (hd tr) (str ''run-1'') = Some RUNNING \<and>
       writeStateOf sf (str ''res-1'') = Some COMPLETE \<and>
       succeeded sf (str ''run-1'') \<and> length (ruleResultsOf sf (str ''res-1'')) = 2"
      by simp
    with c e twoChat_segments n show ?thesis by blast
  qed
  have one: "\<exists>c tr sf th k'.
     evaluateRun exampleHost exampleRules (TextInput shortText) exampleTime None = Inr c \<and>
     execOps (\<lambda>j. False) 1
       (persistOps exampleCall ?run (str ''res-1'') (str ''fp-2'') c) runningStore =
       (tr, sf, th, k') \<and>
     segmentCount (TextInput shortText) = 1 \<and>
     canSingleBatch c \<and> th = None \<and> length tr = 1 \<and>
     writeStateOf sf (str ''res-1'') = None \<and>
     succeeded sf (str ''run-1'') \<and> length (ruleResultsOf sf (str ''res-1'')) = 2"
  proof -
    from evaluateRun_total [of exampleHost exampleRules "TextInput shortText" exampleTime None]
    obtain c where
      c: "evaluateRun exampleHost exampleRules (TextInput shortText) exampleTime None = Inr c"
      by blast
    let ?ops = "persistOps exampleCall ?run (str ''res-1'') (str ''fp-2'') c"
    obtain tr sf th k' where e: "execOps (\<lambda>j. False) 1 ?ops runningStore = (tr, sf, th, k')"
      by (cases "execOps (\<lambda>j. False) 1 ?ops runningStore") auto
    from persistence_path [OF c u r e] shortText_segments n id
    have "canSingleBatch c \<and> th = None \<and> length tr = 1 \<and>
       writeStateOf sf (str ''res-1'') = None \<and>
       succeeded sf (str ''run-1'') \<and> length (ruleResultsOf sf (str ''res-1'')) = 2"
      by simp
    with c e shortText_segments show ?thesis by blast
  qed
  from two one show ?thesis by (rule conjI)
qed

subsection \<open>Orchestrator: start\<close>

text \<open>What does hold of the start: the guarding transaction moves a QUEUED run to RUNNING
  and changes nothing else, so two of them in a row make one transition; and an invocation
  that finds the run in any state other than QUEUED or RUNNING writes nothing.\<close>

lemma begin_twice:
  assumes "runs s runId = Some run" and "run_status run = QUEUED"
    and "applyOp (BeginTx runId) s = Inr s1"
  shows "runStatusOf s1 runId = Some RUNNING \<and> applyOp (BeginTx runId) s1 = Inr s1"
proof -
  from begin_status [OF assms(1,2)] assms(3)
  have "s1 = s\<lparr> runs := (runs s)(runId \<mapsto> run\<lparr> run_status := RUNNING \<rparr>) \<rparr>" by simp
  then show ?thesis by (simp add: runStatusOf_def)
qed

lemma settled_start_is_noop:
  assumes "runs s (inv_runId call) = Some run"
    and "run_status run \<noteq> QUEUED" and "run_status run \<noteq> RUNNING" and "\<not> F 0"
  shows "processQcRun B E F call s = ([s], Resolved)"
proof -
  from assms(1,2) have ap: "applyOp (BeginTx (inv_runId call)) s = Inr s" by simp
  have x: "execOps F 0 [BeginTx (inv_runId call)] s = ([s], s, None, Suc 0)"
    by (simp only: execOps.simps assms(4) if_False ap sum.case prod.case)
  from x assms(1,3) show ?thesis by (simp add: processQcRun_def)
qed

text \<open>
  C3. An invocation that finds the run already RUNNING (a second invocation arriving while
  the first is at work), with the store and the reads of rules and input in order: its
  guarding transaction leaves the store as it is, and yet the invocation does not stop
  there; it evaluates, resolves, and leaves a complete result under its own result id,
  which did not exist before, with the run SUCCEEDED and pointing to it.
\<close>

theorem duplicate_start_runs_again:
  assumes q: "runs s (inv_runId call) = Some run" and st: "run_status run = RUNNING"
    and u: "untouched (env_resultId E) s"
    and nf: "\<forall>j. \<not> F j" and l: "loadsFor E call run"
    and p: "processQcRun B E F call s = (tr, out)"
  shows "applyOp (BeginTx (inv_runId call)) s = Inr s \<and> out = Resolved \<and>
         results s (env_resultId E) = None \<and>
         resultComplete (last tr) (env_resultId E) \<and>
         succeeded (last tr) (inv_runId call) \<and>
         pointsTo (last tr) (inv_runId call) (env_resultId E) \<and>
         2 \<le> length tr"
proof -
  let ?runId = "inv_runId call" and ?rid = "env_resultId E"
  from q st have ap: "applyOp (BeginTx ?runId) s = Inr s" by simp
  from nf have nf0: "\<not> F 0" by simp
  have x: "execOps F 0 [BeginTx ?runId] s = ([s], s, None, Suc 0)"
    by (simp only: execOps.simps nf0 if_False ap sum.case prod.case)
  obtain t out' where rb: "runBody B E F call (Suc 0) s run = (t, out')"
    by (cases "runBody B E F call (Suc 0) s run") auto
  from p x q st rb have tr: "tr = s # t" and out: "out = out'"
    by (simp_all add: processQcRun_def)
  from q st have r: "runStatusOf s ?runId = Some RUNNING" by (simp add: runStatusOf_def)
  from runBody_trace [OF u r refl rb] nf l
  have ch: "chain (goodStep ?runId ?rid) s t" and res: "out' = Resolved"
    and su: "succeeded (last (s # t)) ?runId" by simp_all
  from r have ns: "\<not> succeeded s ?runId" by (rule running_not_succeeded)
  from su ns have ne: "t \<noteq> []" by auto
  have "list_all (\<lambda>x. pending ?runId ?rid x \<or> finished ?runId ?rid x) t"
    by (rule chain_states [OF goodStep_phase ch])
  with ne have "pending ?runId ?rid (last t) \<or> finished ?runId ?rid (last t)"
    by (simp add: list_all_iff)
  with su ne have fin: "finished ?runId ?rid (last t)" by (auto simp: pending_def)
  from fin su ne have "resultComplete (last t) ?rid" "pointsTo (last t) ?runId ?rid"
    by (simp_all add: finished_def)
  moreover from u have "results s ?rid = None" by (simp add: untouched_def)
  moreover from ne have "2 \<le> length tr" by (cases t) (simp_all add: tr)
  ultimately show ?thesis using ap res out su ne tr by simp
qed

theorem duplicate_start_runs_again_witness:
  "applyOp (BeginTx (str ''run-1'')) runningStore = Inr runningStore \<and>
   snd (processQcRun exampleHost exampleEnv noFaults exampleCall runningStore) = Resolved \<and>
   results runningStore (str ''res-1'') = None \<and>
   resultComplete (last (fst (processQcRun exampleHost exampleEnv noFaults exampleCall runningStore)))
     (str ''res-1'') \<and>
   succeeded (last (fst (processQcRun exampleHost exampleEnv noFaults exampleCall runningStore)))
     (str ''run-1'') \<and>
   map observe (fst (processQcRun exampleHost exampleEnv noFaults exampleCall runningStore)) =
     [(Some RUNNING, None, 0), (Some RUNNING, Some WRITING, 0), (Some RUNNING, Some WRITING, 2),
      (Some RUNNING, Some WRITING, 2), (Some RUNNING, Some WRITING, 2),
      (Some RUNNING, Some WRITING, 2), (Some RUNNING, Some WRITING, 2),
      (Some SUCCEEDED, Some COMPLETE, 2), (Some SUCCEEDED, Some COMPLETE, 2)]"
proof -
  let ?p = "processQcRun exampleHost exampleEnv noFaults exampleCall runningStore"
  let ?run = "exampleRun\<lparr> run_status := RUNNING \<rparr>"
  have ids: "inv_runId exampleCall = str ''run-1''" "env_resultId exampleEnv = str ''res-1''"
    by (simp_all add: exampleCall_def exampleEnv_def)
  have q: "runs runningStore (inv_runId exampleCall) = Some ?run"
    by (simp add: runningStore_def exampleStore_def exampleCall_def)
  have st: "run_status ?run = RUNNING" by simp
  have u: "untouched (env_resultId exampleEnv) runningStore"
    by (simp add: untouched_def exampleEnv_def runningStore_def exampleStore_def ruleResultsOf_def)
  have nf: "\<forall>j. \<not> noFaults j" by (simp add: noFaults_def)
  have l: "loadsFor exampleEnv exampleCall ?run"
    by (simp add: loadsFor_def isOk_def exampleEnv_def validateUpload_def exampleRun_def)
  have p: "?p = (fst ?p, snd ?p)" by simp
  from duplicate_start_runs_again [OF q st u nf l p] ids duplicateRun_history show ?thesis by simp
qed

end
